theory Spec2Isabelle
  imports Main
begin

section \<open>The memory system and the element type\<close>

text \<open>
  The source is \<^verbatim>\<open>advanced-vector/vector.h\<close>: the class templates \<^verbatim>\<open>RawMemory<T>\<close> and
  \<^verbatim>\<open>Vector<T>\<close>. A block of raw memory is a list of slots; a slot is either uninitialised
  (\<open>Raw\<close>) or holds a constructed object (\<open>Live x\<close>). A pointer \<^verbatim>\<open>T*\<close> is \<open>Null\<close> or the
  address of a block together with an index into it. Sizes (\<^verbatim>\<open>size_t\<close>) are natural numbers,
  and the one product that the source computes from a size chosen by the caller,
  \<^verbatim>\<open>n * sizeof(T)\<close> in \<^verbatim>\<open>Allocate\<close>, is taken modulo \<open>2 ^ 64\<close> as the machine does. The
  other product, \<^verbatim>\<open>Capacity() * 2\<close>, is computed for a full vector only, which would have
  to hold \<open>2 ^ 63\<close> objects for it to wrap; it is taken as it stands.
\<close>

type_synonym addr = nat

datatype 'a slot = Raw | Live 'a

datatype ptr = Null | Ptr addr nat

datatype exn = bad_alloc | elem_exn

text \<open>
  A call returns a value, throws, or has undefined behaviour (a read or write outside
  a block, the construction of an object in a slot that is not raw, the use of an
  object that is not live). The state after the call comes with the first two.
\<close>

datatype ('r, 's) outcome = Returns 'r 's | Throws exn 's | Undefined

text \<open>
  The element type \<^verbatim>\<open>T\<close> is a parameter: its two compile-time traits and its special
  member functions. Each function runs in the environment \<open>'e\<close> of the element type (
  counters, logs, whatever the type keeps outside its objects) and gives \<open>None\<close> when it
  throws. A move gives the new object and what it leaves in the source. An operation that
  throws leaves its operands as they were.
\<close>

record ('a, 'e) elem_type =
  is_nothrow_move_constructible :: bool
  is_copy_constructible :: bool
  value_init :: "'e \<Rightarrow> 'a option \<times> 'e"
  copy_ctor :: "'a \<Rightarrow> 'e \<Rightarrow> 'a option \<times> 'e"
  move_ctor :: "'a \<Rightarrow> 'e \<Rightarrow> ('a \<times> 'a) option \<times> 'e"
  copy_assign :: "'a \<Rightarrow> 'a \<Rightarrow> 'e \<Rightarrow> 'a option \<times> 'e"
  move_assign :: "'a \<Rightarrow> 'a \<Rightarrow> 'e \<Rightarrow> ('a \<times> 'a) option \<times> 'e"
  dtor :: "'a \<Rightarrow> 'e \<Rightarrow> 'e"

text \<open>
  The memory system: the allocated blocks, the next fresh address, the number of slots
  it can still hand out (\<^verbatim>\<open>operator new\<close> throws \<^verbatim>\<open>std::bad_alloc\<close> beyond it), the
  environment of the element type, and \<^verbatim>\<open>sizeof(T)\<close>, the number of bytes of a slot.
\<close>

record ('a, 'e) world =
  heap :: "addr \<Rightarrow> 'a slot list option"
  next_addr :: addr
  avail :: nat
  env :: 'e
  sizeof_T :: nat

definition and_then ::
  "('r, 's) outcome \<Rightarrow> ('r \<Rightarrow> 's \<Rightarrow> ('q, 's) outcome) \<Rightarrow> ('q, 's) outcome" where
  "and_then m f = (case m of Returns r s \<Rightarrow> f r s | Throws e s \<Rightarrow> Throws e s | Undefined \<Rightarrow> Undefined)"

text \<open>\<^verbatim>\<open>try { m } catch (...) { h }\<close>\<close>

definition try_catch ::
  "('r, 's) outcome \<Rightarrow> (exn \<Rightarrow> 's \<Rightarrow> ('r, 's) outcome) \<Rightarrow> ('r, 's) outcome" where
  "try_catch m h = (case m of Throws e s \<Rightarrow> h e s | Returns r s \<Rightarrow> Returns r s | Undefined \<Rightarrow> Undefined)"

subsection \<open>Pointers and slots\<close>

text \<open>\<^verbatim>\<open>p + k\<close>; every access through a null pointer is undefined below.\<close>

fun ptr_add :: "ptr \<Rightarrow> nat \<Rightarrow> ptr" where
  "ptr_add Null k = Null"
| "ptr_add (Ptr a i) k = Ptr a (i + k)"

text \<open>\<^verbatim>\<open>p - q\<close> as a \<^verbatim>\<open>size_t\<close>: defined inside one block, when \<open>q\<close> is not after \<open>p\<close>.\<close>

fun ptr_diff :: "ptr \<Rightarrow> ptr \<Rightarrow> nat option" where
  "ptr_diff Null Null = Some 0"
| "ptr_diff (Ptr a i) (Ptr b j) = (if a = b \<and> j \<le> i then Some (i - j) else None)"
| "ptr_diff _ _ = None"

definition slot_at :: "('a, 'e) world \<Rightarrow> ptr \<Rightarrow> 'a slot option" where
  "slot_at w p =
     (case p of
        Null \<Rightarrow> None
      | Ptr a i \<Rightarrow>
          (case heap w a of
             None \<Rightarrow> None
           | Some b \<Rightarrow> if i < length b then Some (b ! i) else None))"

definition put_slot :: "ptr \<Rightarrow> 'a slot \<Rightarrow> ('a, 'e) world \<Rightarrow> ('a, 'e) world" where
  "put_slot p s w =
     (case p of
        Null \<Rightarrow> w
      | Ptr a i \<Rightarrow>
          (case heap w a of
             None \<Rightarrow> w
           | Some b \<Rightarrow> w\<lparr>heap := (heap w)(a \<mapsto> b[i := s])\<rparr>))"

text \<open>The live object \<^verbatim>\<open>*p\<close>.\<close>

definition deref :: "('a, 'e) world \<Rightarrow> ptr \<Rightarrow> 'a option" where
  "deref w p = (case slot_at w p of Some (Live x) \<Rightarrow> Some x | _ \<Rightarrow> None)"

text \<open>
  \<^verbatim>\<open>new (p) T(args...)\<close>: \<open>mk\<close> is the constructor call with its arguments; the slot must be
  raw. Nothing is written when the constructor throws.
\<close>

definition construct_at ::
  "ptr \<Rightarrow> ('e \<Rightarrow> 'a option \<times> 'e) \<Rightarrow> ('a, 'e) world \<Rightarrow> (unit, ('a, 'e) world) outcome" where
  "construct_at p mk w =
     (case slot_at w p of
        Some Raw \<Rightarrow>
          (case mk (env w) of
             (None, e') \<Rightarrow> Throws elem_exn (w\<lparr>env := e'\<rparr>)
           | (Some x, e') \<Rightarrow> Returns () (put_slot p (Live x) (w\<lparr>env := e'\<rparr>)))
      | _ \<Rightarrow> Undefined)"

text \<open>\<^verbatim>\<open>new (p) T(*q)\<close>\<close>

definition copy_construct_at ::
  "('a, 'e) elem_type \<Rightarrow> ptr \<Rightarrow> ptr \<Rightarrow> ('a, 'e) world \<Rightarrow> (unit, ('a, 'e) world) outcome" where
  "copy_construct_at T p q w =
     (case deref w q of
        None \<Rightarrow> Undefined
      | Some x \<Rightarrow> construct_at p (copy_ctor T x) w)"

text \<open>\<^verbatim>\<open>new (p) T(std::move(*q))\<close>: the source stays live, holding what the move left.\<close>

definition move_construct_at ::
  "('a, 'e) elem_type \<Rightarrow> ptr \<Rightarrow> ptr \<Rightarrow> ('a, 'e) world \<Rightarrow> (unit, ('a, 'e) world) outcome" where
  "move_construct_at T p q w =
     (case deref w q of
        None \<Rightarrow> Undefined
      | Some x \<Rightarrow>
          (case slot_at w p of
             Some Raw \<Rightarrow>
               (case move_ctor T x (env w) of
                  (None, e') \<Rightarrow> Throws elem_exn (w\<lparr>env := e'\<rparr>)
                | (Some (y, r), e') \<Rightarrow>
                    Returns () (put_slot p (Live y) (put_slot q (Live r) (w\<lparr>env := e'\<rparr>))))
           | _ \<Rightarrow> Undefined))"

text \<open>\<^verbatim>\<open>*p = *q\<close>\<close>

definition copy_assign_at ::
  "('a, 'e) elem_type \<Rightarrow> ptr \<Rightarrow> ptr \<Rightarrow> ('a, 'e) world \<Rightarrow> (unit, ('a, 'e) world) outcome" where
  "copy_assign_at T p q w =
     (case (deref w p, deref w q) of
        (Some t, Some x) \<Rightarrow>
          (case copy_assign T t x (env w) of
             (None, e') \<Rightarrow> Throws elem_exn (w\<lparr>env := e'\<rparr>)
           | (Some y, e') \<Rightarrow> Returns () (put_slot p (Live y) (w\<lparr>env := e'\<rparr>)))
      | _ \<Rightarrow> Undefined)"

text \<open>\<^verbatim>\<open>*p = std::move(*q)\<close>\<close>

definition move_assign_at ::
  "('a, 'e) elem_type \<Rightarrow> ptr \<Rightarrow> ptr \<Rightarrow> ('a, 'e) world \<Rightarrow> (unit, ('a, 'e) world) outcome" where
  "move_assign_at T p q w =
     (case (deref w p, deref w q) of
        (Some t, Some x) \<Rightarrow>
          (case move_assign T t x (env w) of
             (None, e') \<Rightarrow> Throws elem_exn (w\<lparr>env := e'\<rparr>)
           | (Some (y, r), e') \<Rightarrow>
               Returns () (put_slot p (Live y) (put_slot q (Live r) (w\<lparr>env := e'\<rparr>))))
      | _ \<Rightarrow> Undefined)"

text \<open>\<^verbatim>\<open>std::destroy_at(p)\<close>, \<^verbatim>\<open>p->~T()\<close>: the destructor runs and the slot is raw again.\<close>

definition destroy_at ::
  "('a, 'e) elem_type \<Rightarrow> ptr \<Rightarrow> ('a, 'e) world \<Rightarrow> (unit, ('a, 'e) world) outcome" where
  "destroy_at T p w =
     (case deref w p of
        None \<Rightarrow> Undefined
      | Some x \<Rightarrow> Returns () (put_slot p Raw (w\<lparr>env := dtor T x (env w)\<rparr>)))"

subsection \<open>The algorithms of the standard library\<close>

text \<open>
  The loops of \<^verbatim>\<open><memory>\<close> and \<^verbatim>\<open><algorithm>\<close> that the source calls, after the C++
  standard. The \<^verbatim>\<open>uninitialized_\<close> algorithms destroy what they have constructed when a
  constructor throws (the standard leaves the order open; here the last constructed
  goes first) and rethrow. The assigning algorithms have nothing to undo.
\<close>

fun ptr_sub :: "ptr \<Rightarrow> nat \<Rightarrow> ptr option" where
  "ptr_sub Null k = (if k = 0 then Some Null else None)"
| "ptr_sub (Ptr a i) k = (if k \<le> i then Some (Ptr a (i - k)) else None)"

fun destroy_n ::
  "('a, 'e) elem_type \<Rightarrow> ptr \<Rightarrow> nat \<Rightarrow> ('a, 'e) world \<Rightarrow> (ptr, ('a, 'e) world) outcome" where
  "destroy_n T p 0 w = Returns p w"
| "destroy_n T p (Suc n) w =
     and_then (destroy_at T p w) (\<lambda>_ w1. destroy_n T (ptr_add p 1) n w1)"

fun uninitialized_value_construct_n ::
  "('a, 'e) elem_type \<Rightarrow> ptr \<Rightarrow> nat \<Rightarrow> ('a, 'e) world \<Rightarrow> (ptr, ('a, 'e) world) outcome" where
  "uninitialized_value_construct_n T p 0 w = Returns p w"
| "uninitialized_value_construct_n T p (Suc n) w =
     and_then (construct_at p (value_init T) w) (\<lambda>_ w1.
       try_catch (uninitialized_value_construct_n T (ptr_add p 1) n w1)
         (\<lambda>e w2. and_then (destroy_at T p w2) (\<lambda>_ w3. Throws e w3)))"

fun uninitialized_copy_n ::
  "('a, 'e) elem_type \<Rightarrow> ptr \<Rightarrow> nat \<Rightarrow> ptr \<Rightarrow> ('a, 'e) world \<Rightarrow> (ptr, ('a, 'e) world) outcome" where
  "uninitialized_copy_n T src 0 dst w = Returns dst w"
| "uninitialized_copy_n T src (Suc n) dst w =
     and_then (copy_construct_at T dst src w) (\<lambda>_ w1.
       try_catch (uninitialized_copy_n T (ptr_add src 1) n (ptr_add dst 1) w1)
         (\<lambda>e w2. and_then (destroy_at T dst w2) (\<lambda>_ w3. Throws e w3)))"

fun uninitialized_move_n ::
  "('a, 'e) elem_type \<Rightarrow> ptr \<Rightarrow> nat \<Rightarrow> ptr \<Rightarrow> ('a, 'e) world \<Rightarrow>
     (ptr \<times> ptr, ('a, 'e) world) outcome" where
  "uninitialized_move_n T src 0 dst w = Returns (src, dst) w"
| "uninitialized_move_n T src (Suc n) dst w =
     and_then (move_construct_at T dst src w) (\<lambda>_ w1.
       try_catch (uninitialized_move_n T (ptr_add src 1) n (ptr_add dst 1) w1)
         (\<lambda>e w2. and_then (destroy_at T dst w2) (\<lambda>_ w3. Throws e w3)))"

fun copy_n ::
  "('a, 'e) elem_type \<Rightarrow> ptr \<Rightarrow> nat \<Rightarrow> ptr \<Rightarrow> ('a, 'e) world \<Rightarrow> (ptr, ('a, 'e) world) outcome" where
  "copy_n T src 0 dst w = Returns dst w"
| "copy_n T src (Suc n) dst w =
     and_then (copy_assign_at T dst src w) (\<lambda>_ w1.
       copy_n T (ptr_add src 1) n (ptr_add dst 1) w1)"

text \<open>\<^verbatim>\<open>std::move(first, last, d_first)\<close>: front to back.\<close>

fun move_n ::
  "('a, 'e) elem_type \<Rightarrow> ptr \<Rightarrow> nat \<Rightarrow> ptr \<Rightarrow> ('a, 'e) world \<Rightarrow> (ptr, ('a, 'e) world) outcome" where
  "move_n T src 0 dst w = Returns dst w"
| "move_n T src (Suc n) dst w =
     and_then (move_assign_at T dst src w) (\<lambda>_ w1.
       move_n T (ptr_add src 1) n (ptr_add dst 1) w1)"

definition std_move ::
  "('a, 'e) elem_type \<Rightarrow> ptr \<Rightarrow> ptr \<Rightarrow> ptr \<Rightarrow> ('a, 'e) world \<Rightarrow> (ptr, ('a, 'e) world) outcome" where
  "std_move T first lastp d_first w =
     (case ptr_diff lastp first of
        None \<Rightarrow> Undefined
      | Some n \<Rightarrow> move_n T first n d_first w)"

text \<open>
  \<^verbatim>\<open>std::move_backward(first, last, d_last)\<close>: back to front,
  \<^verbatim>\<open>while (first != last) *(--d_last) = std::move(*(--last));\<close>
\<close>

fun move_backward_n ::
  "('a, 'e) elem_type \<Rightarrow> ptr \<Rightarrow> nat \<Rightarrow> ptr \<Rightarrow> ('a, 'e) world \<Rightarrow> (ptr, ('a, 'e) world) outcome" where
  "move_backward_n T lastp 0 d_last w = Returns d_last w"
| "move_backward_n T lastp (Suc n) d_last w =
     (case (ptr_sub lastp 1, ptr_sub d_last 1) of
        (Some l, Some d) \<Rightarrow>
          and_then (move_assign_at T d l w) (\<lambda>_ w1. move_backward_n T l n d w1)
      | _ \<Rightarrow> Undefined)"

definition move_backward ::
  "('a, 'e) elem_type \<Rightarrow> ptr \<Rightarrow> ptr \<Rightarrow> ptr \<Rightarrow> ('a, 'e) world \<Rightarrow> (ptr, ('a, 'e) world) outcome" where
  "move_backward T first lastp d_last w =
     (case ptr_diff lastp first of
        None \<Rightarrow> Undefined
      | Some n \<Rightarrow> move_backward_n T lastp n d_last w)"

section \<open>RawMemory\<close>

text \<open>The members \<^verbatim>\<open>buffer_\<close> and \<^verbatim>\<open>capacity_\<close>.\<close>

record RawMemory =
  rm_buffer :: ptr
  rm_capacity :: nat

text \<open>
  \<^verbatim>\<open>operator new(bytes)\<close> and \<^verbatim>\<open>operator delete(buf)\<close>: a fresh block of that many bytes,
  which is as many raw slots as fit in it, or \<^verbatim>\<open>std::bad_alloc\<close>; deleting a null pointer
  does nothing. \<open>size_t_mul\<close> is the product of two \<^verbatim>\<open>size_t\<close> values, which wraps around
  at \<open>2 ^ 64\<close>: where \<^verbatim>\<open>n * sizeof(T)\<close> wraps, \<^verbatim>\<open>Allocate(n)\<close> gives a block of fewer than \<open>n\<close>
  slots.
\<close>

definition size_t_mul :: "nat \<Rightarrow> nat \<Rightarrow> nat" where
  "size_t_mul a b = (a * b) mod 2 ^ 64"

definition operator_new :: "nat \<Rightarrow> ('a, 'e) world \<Rightarrow> (ptr, ('a, 'e) world) outcome" where
  "operator_new bytes w =
     (let n = bytes div sizeof_T w
      in if avail w < n then Throws bad_alloc w
         else Returns (Ptr (next_addr w) 0)
                (w\<lparr>heap := (heap w)(next_addr w \<mapsto> replicate n Raw),
                   next_addr := Suc (next_addr w),
                   avail := avail w - n\<rparr>))"

definition operator_delete :: "ptr \<Rightarrow> ('a, 'e) world \<Rightarrow> (unit, ('a, 'e) world) outcome" where
  "operator_delete p w =
     (case p of
        Null \<Rightarrow> Returns () w
      | Ptr a i \<Rightarrow>
          (case heap w a of
             None \<Rightarrow> Undefined
           | Some b \<Rightarrow>
               if i = 0 then Returns () (w\<lparr>heap := (heap w)(a := None), avail := avail w + length b\<rparr>)
               else Undefined))"

definition Allocate :: "nat \<Rightarrow> ('a, 'e) world \<Rightarrow> (ptr, ('a, 'e) world) outcome" where
  "Allocate n w =
     (if n \<noteq> 0 then operator_new (size_t_mul n (sizeof_T w)) w else Returns Null w)"

definition Deallocate :: "ptr \<Rightarrow> ('a, 'e) world \<Rightarrow> (unit, ('a, 'e) world) outcome" where
  "Deallocate buf w = operator_delete buf w"

text \<open>\<^verbatim>\<open>RawMemory() = default\<close>\<close>

definition RawMemory_default :: RawMemory where
  "RawMemory_default = \<lparr>rm_buffer = Null, rm_capacity = 0\<rparr>"

text \<open>\<^verbatim>\<open>explicit RawMemory(size_t capacity)\<close>\<close>

definition RawMemory_ctor :: "nat \<Rightarrow> ('a, 'e) world \<Rightarrow> (RawMemory, ('a, 'e) world) outcome" where
  "RawMemory_ctor capacity w =
     and_then (Allocate capacity w) (\<lambda>p w1.
       Returns \<lparr>rm_buffer = p, rm_capacity = capacity\<rparr> w1)"

text \<open>
  \<^verbatim>\<open>RawMemory& operator=(RawMemory&& rhs)\<close>: the pair is \<^verbatim>\<open>*this\<close> and \<^verbatim>\<open>rhs\<close> afterwards.
  \<^verbatim>\<open>buffer_\<close> of \<^verbatim>\<open>rhs\<close> is exchanged for \<^verbatim>\<open>nullptr\<close>; \<^verbatim>\<open>capacity_\<close> is only read.
\<close>

definition RawMemory_move_assign :: "RawMemory \<Rightarrow> RawMemory \<Rightarrow> RawMemory \<times> RawMemory" where
  "RawMemory_move_assign this rhs =
     (let this1 = this\<lparr>rm_buffer := rm_buffer rhs\<rparr>;
          rhs1 = rhs\<lparr>rm_buffer := Null\<rparr>;
          this2 = this1\<lparr>rm_capacity := rm_capacity rhs1\<rparr>
      in (this2, rhs1))"

text \<open>\<^verbatim>\<open>RawMemory(RawMemory&& other) { *this = std::move(other); }\<close>\<close>

definition RawMemory_move_ctor :: "RawMemory \<Rightarrow> RawMemory \<times> RawMemory" where
  "RawMemory_move_ctor other = RawMemory_move_assign RawMemory_default other"

text \<open>\<^verbatim>\<open>~RawMemory()\<close>\<close>

definition RawMemory_dtor :: "RawMemory \<Rightarrow> ('a, 'e) world \<Rightarrow> (unit, ('a, 'e) world) outcome" where
  "RawMemory_dtor this w = Deallocate (rm_buffer this) w"

text \<open>\<^verbatim>\<open>T& operator[](size_t index)\<close>, with its assertion: the address of the slot.\<close>

definition RawMemory_index :: "RawMemory \<Rightarrow> nat \<Rightarrow> ptr option" where
  "RawMemory_index this index =
     (if index < rm_capacity this then Some (ptr_add (rm_buffer this) index) else None)"

definition RawMemory_Swap :: "RawMemory \<Rightarrow> RawMemory \<Rightarrow> RawMemory \<times> RawMemory" where
  "RawMemory_Swap this other =
     (this\<lparr>rm_buffer := rm_buffer other, rm_capacity := rm_capacity other\<rparr>,
      other\<lparr>rm_buffer := rm_buffer this, rm_capacity := rm_capacity this\<rparr>)"

definition GetAddress :: "RawMemory \<Rightarrow> ptr" where
  "GetAddress this = rm_buffer this"

definition RawMemory_Capacity :: "RawMemory \<Rightarrow> nat" where
  "RawMemory_Capacity this = rm_capacity this"

section \<open>Vector\<close>

text \<open>The members \<^verbatim>\<open>data_\<close> and \<^verbatim>\<open>size_\<close>.\<close>

record Vector =
  v_data :: RawMemory
  v_size :: nat

text \<open>
  A member function takes \<^verbatim>\<open>*this\<close> and the memory and gives both back, also when it
  throws. \<open>on_world\<close> runs a step that does not touch the members.
\<close>

definition on_world ::
  "(('a, 'e) world \<Rightarrow> ('r, ('a, 'e) world) outcome) \<Rightarrow> Vector \<Rightarrow> ('a, 'e) world \<Rightarrow>
     ('r, Vector \<times> ('a, 'e) world) outcome" where
  "on_world m this w =
     (case m w of
        Returns r w1 \<Rightarrow> Returns r (this, w1)
      | Throws e w1 \<Rightarrow> Throws e (this, w1)
      | Undefined \<Rightarrow> Undefined)"

definition discard :: "('r, 's) outcome \<Rightarrow> (unit, 's) outcome" where
  "discard m = and_then m (\<lambda>_ s. Returns () s)"

definition Vector_begin :: "Vector \<Rightarrow> ptr" where
  "Vector_begin this = GetAddress (v_data this)"

definition Vector_end :: "Vector \<Rightarrow> ptr" where
  "Vector_end this = ptr_add (GetAddress (v_data this)) (v_size this)"

text \<open>\<^verbatim>\<open>Vector() = default\<close>\<close>

definition Vector_default :: Vector where
  "Vector_default = \<lparr>v_data = RawMemory_default, v_size = 0\<rparr>"

text \<open>
  \<^verbatim>\<open>explicit Vector(size_t size)\<close>. When the body of a constructor throws, the member
  \<^verbatim>\<open>data_\<close>, already constructed, is destroyed.
\<close>

definition Vector_sized ::
  "('a, 'e) elem_type \<Rightarrow> nat \<Rightarrow> ('a, 'e) world \<Rightarrow> (Vector, ('a, 'e) world) outcome" where
  "Vector_sized T sz w =
     and_then (RawMemory_ctor sz w) (\<lambda>d w1.
       try_catch
         (and_then (uninitialized_value_construct_n T (GetAddress d) sz w1) (\<lambda>_ w2.
            Returns \<lparr>v_data = d, v_size = sz\<rparr> w2))
         (\<lambda>e w2. and_then (RawMemory_dtor d w2) (\<lambda>_ w3. Throws e w3)))"

text \<open>\<^verbatim>\<open>Vector(const Vector& other)\<close>\<close>

definition Vector_copy_ctor ::
  "('a, 'e) elem_type \<Rightarrow> Vector \<Rightarrow> ('a, 'e) world \<Rightarrow> (Vector, ('a, 'e) world) outcome" where
  "Vector_copy_ctor T other w =
     and_then (RawMemory_ctor (v_size other) w) (\<lambda>d w1.
       try_catch
         (and_then
            (uninitialized_copy_n T (GetAddress (v_data other)) (v_size other) (GetAddress d) w1)
            (\<lambda>_ w2. Returns \<lparr>v_data = d, v_size = v_size other\<rparr> w2))
         (\<lambda>e w2. and_then (RawMemory_dtor d w2) (\<lambda>_ w3. Throws e w3)))"

text \<open>\<^verbatim>\<open>Vector(Vector&& other) noexcept\<close>: the new vector and \<^verbatim>\<open>other\<close> afterwards.\<close>

definition Vector_move_ctor :: "Vector \<Rightarrow> Vector \<times> Vector" where
  "Vector_move_ctor other =
     (case RawMemory_move_ctor (v_data other) of
        (d, od) \<Rightarrow> (\<lparr>v_data = d, v_size = v_size other\<rparr>, other\<lparr>v_data := od, v_size := 0\<rparr>))"

definition Vector_Swap :: "Vector \<Rightarrow> Vector \<Rightarrow> Vector \<times> Vector" where
  "Vector_Swap this other =
     (case RawMemory_Swap (v_data this) (v_data other) of
        (d, od) \<Rightarrow>
          (this\<lparr>v_data := d, v_size := v_size other\<rparr>,
           other\<lparr>v_data := od, v_size := v_size this\<rparr>))"

text \<open>\<^verbatim>\<open>~Vector()\<close>, followed by the destructor of the member \<^verbatim>\<open>data_\<close>.\<close>

definition Vector_dtor ::
  "('a, 'e) elem_type \<Rightarrow> Vector \<Rightarrow> ('a, 'e) world \<Rightarrow> (unit, ('a, 'e) world) outcome" where
  "Vector_dtor T this w =
     and_then (destroy_n T (GetAddress (v_data this)) (v_size this) w) (\<lambda>_ w1.
       RawMemory_dtor (v_data this) w1)"

definition Capacity :: "Vector \<Rightarrow> nat" where
  "Capacity this = RawMemory_Capacity (v_data this)"

definition Size :: "Vector \<Rightarrow> nat" where
  "Size this = v_size this"

text \<open>\<^verbatim>\<open>T& operator[](size_t index)\<close>, with its assertion.\<close>

definition Vector_index :: "Vector \<Rightarrow> nat \<Rightarrow> ptr option" where
  "Vector_index this index =
     (if index < v_size this then RawMemory_index (v_data this) index else None)"

definition PopBack ::
  "('a, 'e) elem_type \<Rightarrow> Vector \<Rightarrow> ('a, 'e) world \<Rightarrow> (unit, Vector \<times> ('a, 'e) world) outcome" where
  "PopBack T this w =
     (case ptr_sub (Vector_end this) 1 of
        None \<Rightarrow> Undefined
      | Some p \<Rightarrow>
          and_then (on_world (destroy_at T p) this w) (\<lambda>_ (this1, w1).
            Returns () (this1\<lparr>v_size := v_size this1 - 1\<rparr>, w1)))"

text \<open>
  \<^verbatim>\<open>static void ReallocatePartial(T* from, size_t count, T* to)\<close>: the choice between
  move and copy is made at compile time, from the traits of \<^verbatim>\<open>T\<close>.
\<close>

definition ReallocatePartial ::
  "('a, 'e) elem_type \<Rightarrow> ptr \<Rightarrow> nat \<Rightarrow> ptr \<Rightarrow> ('a, 'e) world \<Rightarrow> (unit, ('a, 'e) world) outcome" where
  "ReallocatePartial T from_p count to_p w =
     (if is_nothrow_move_constructible T \<or> \<not> is_copy_constructible T
      then discard (uninitialized_move_n T from_p count to_p w)
      else discard (uninitialized_copy_n T from_p count to_p w))"

text \<open>
  \<^verbatim>\<open>void ReallocateData(RawMemory<T>& new_data)\<close>: the result is \<^verbatim>\<open>new_data\<close> afterwards,
  which holds the old block.
\<close>

definition ReallocateData ::
  "('a, 'e) elem_type \<Rightarrow> RawMemory \<Rightarrow> Vector \<Rightarrow> ('a, 'e) world \<Rightarrow>
     (RawMemory, Vector \<times> ('a, 'e) world) outcome" where
  "ReallocateData T new_data this w =
     and_then
       (if is_nothrow_move_constructible T \<or> \<not> is_copy_constructible T
        then on_world (\<lambda>w. discard
               (uninitialized_move_n T (GetAddress (v_data this)) (v_size this) (GetAddress new_data) w))
               this w
        else on_world (\<lambda>w. discard
               (uninitialized_copy_n T (GetAddress (v_data this)) (v_size this) (GetAddress new_data) w))
               this w)
       (\<lambda>_ (this1, w1).
          and_then (on_world (destroy_n T (GetAddress (v_data this1)) (v_size this1)) this1 w1)
            (\<lambda>_ (this2, w2).
               case RawMemory_Swap (v_data this2) new_data of
                 (d, nd) \<Rightarrow> Returns nd (this2\<lparr>v_data := d\<rparr>, w2)))"

text \<open>
  \<^verbatim>\<open>T& EmplaceBack(Args&&... args)\<close>: \<open>mk\<close> is the call \<^verbatim>\<open>T(std::forward<Args>(args)...)\<close>.
  The local \<^verbatim>\<open>new_data\<close> is destroyed when its scope is left, by return or by exception.
\<close>

definition EmplaceBack ::
  "('a, 'e) elem_type \<Rightarrow> ('e \<Rightarrow> 'a option \<times> 'e) \<Rightarrow> Vector \<Rightarrow> ('a, 'e) world \<Rightarrow>
     (ptr, Vector \<times> ('a, 'e) world) outcome" where
  "EmplaceBack T mk this w =
     and_then
       (if v_size this < RawMemory_Capacity (v_data this)
        then on_world (construct_at (ptr_add (GetAddress (v_data this)) (v_size this)) mk) this w
        else
          (let new_capacity = (if v_size this = 0 then 1 else RawMemory_Capacity (v_data this) * 2)
           in and_then (on_world (RawMemory_ctor new_capacity) this w) (\<lambda>new_data (this1, w1).
                try_catch
                  (and_then
                     (on_world
                        (construct_at (ptr_add (GetAddress new_data) (v_size this1)) mk) this1 w1)
                     (\<lambda>_ (this2, w2).
                        and_then (ReallocateData T new_data this2 w2) (\<lambda>new_data1 (this3, w3).
                          on_world (RawMemory_dtor new_data1) this3 w3)))
                  (\<lambda>e (this2, w2).
                     and_then (on_world (RawMemory_dtor new_data) this2 w2) (\<lambda>_ s3.
                       Throws e s3)))))
       (\<lambda>_ (this4, w4).
          let this5 = this4\<lparr>v_size := v_size this4 + 1\<rparr>
          in case RawMemory_index (v_data this5) (v_size this5 - 1) of
               None \<Rightarrow> Undefined
             | Some p \<Rightarrow> Returns p (this5, w4))"

text \<open>
  A local object of type \<^verbatim>\<open>T\<close> (\<^verbatim>\<open>T copy(args...)\<close> below) is held by value:
  its construction, \<^verbatim>\<open>*p = std::move(copy)\<close> (the result is what the move leaves in
  \<^verbatim>\<open>copy\<close>), and its destruction at the end of its scope.
\<close>

definition local_construct ::
  "('e \<Rightarrow> 'a option \<times> 'e) \<Rightarrow> ('a, 'e) world \<Rightarrow> ('a, ('a, 'e) world) outcome" where
  "local_construct mk w =
     (case mk (env w) of
        (None, e') \<Rightarrow> Throws elem_exn (w\<lparr>env := e'\<rparr>)
      | (Some x, e') \<Rightarrow> Returns x (w\<lparr>env := e'\<rparr>))"

definition local_destroy :: "('a, 'e) elem_type \<Rightarrow> 'a \<Rightarrow> ('a, 'e) world \<Rightarrow> ('a, 'e) world" where
  "local_destroy T x w = w\<lparr>env := dtor T x (env w)\<rparr>"

definition move_assign_from_local ::
  "('a, 'e) elem_type \<Rightarrow> ptr \<Rightarrow> 'a \<Rightarrow> ('a, 'e) world \<Rightarrow> ('a, ('a, 'e) world) outcome" where
  "move_assign_from_local T p x w =
     (case deref w p of
        None \<Rightarrow> Undefined
      | Some t \<Rightarrow>
          (case move_assign T t x (env w) of
             (None, e') \<Rightarrow> Throws elem_exn (w\<lparr>env := e'\<rparr>)
           | (Some (y, r), e') \<Rightarrow> Returns r (put_slot p (Live y) (w\<lparr>env := e'\<rparr>))))"

text \<open>\<^verbatim>\<open>iterator Emplace(const_iterator pos, Args&&... args)\<close>\<close>

definition Emplace ::
  "('a, 'e) elem_type \<Rightarrow> ptr \<Rightarrow> ('e \<Rightarrow> 'a option \<times> 'e) \<Rightarrow> Vector \<Rightarrow> ('a, 'e) world \<Rightarrow>
     (ptr, Vector \<times> ('a, 'e) world) outcome" where
  "Emplace T pos mk this w =
     (if pos = Vector_end this then EmplaceBack T mk this w
      else if v_size this < RawMemory_Capacity (v_data this) then
        (case ptr_diff pos (Vector_begin this) of
           None \<Rightarrow> Undefined
         | Some pos_index \<Rightarrow>
             and_then (on_world (local_construct mk) this w) (\<lambda>copy (this1, w1).
               try_catch
                 (case ptr_sub (Vector_end this1) 1 of
                    None \<Rightarrow> Undefined
                  | Some back \<Rightarrow>
                      and_then
                        (on_world (move_construct_at T (Vector_end this1) back) this1 w1)
                        (\<lambda>_ (this2, w2).
                      and_then
                        (on_world
                           (move_backward T (ptr_add (Vector_begin this2) pos_index) back
                              (Vector_end this2)) this2 w2)
                        (\<lambda>_ (this3, w3).
                      and_then
                        (case RawMemory_index (v_data this3) pos_index of
                           None \<Rightarrow> Undefined
                         | Some p \<Rightarrow> on_world (move_assign_from_local T p copy) this3 w3)
                        (\<lambda>copy1 (this4, w4).
                           let this5 = this4\<lparr>v_size := v_size this4 + 1\<rparr>
                           in Returns (ptr_add (Vector_begin this5) pos_index)
                                (this5, local_destroy T copy1 w4)))))
                 (\<lambda>e (this2, w2). Throws e (this2, local_destroy T copy w2))))
      else
        (let new_capacity = (if v_size this = 0 then 1 else RawMemory_Capacity (v_data this) * 2)
         in and_then (on_world (RawMemory_ctor new_capacity) this w) (\<lambda>new_data (this1, w1).
              try_catch
                (case ptr_diff pos (Vector_begin this1) of
                   None \<Rightarrow> Undefined
                 | Some pos_index \<Rightarrow>
                     and_then
                       (on_world
                          (construct_at (ptr_add (GetAddress new_data) pos_index) mk) this1 w1)
                       (\<lambda>_ (this2, w2).
                     and_then
                       (try_catch
                          (on_world
                             (ReallocatePartial T (Vector_begin this2) pos_index
                                (GetAddress new_data)) this2 w2)
                          (\<lambda>e (this3, w3).
                             case RawMemory_index new_data pos_index of
                               None \<Rightarrow> Undefined
                             | Some p \<Rightarrow>
                                 and_then (on_world (destroy_at T p) this3 w3) (\<lambda>_ s.
                                   Throws e s)))
                       (\<lambda>_ (this3, w3).
                     and_then
                       (try_catch
                          (on_world
                             (ReallocatePartial T (ptr_add (Vector_begin this3) pos_index)
                                (v_size this3 - pos_index)
                                (ptr_add (ptr_add (GetAddress new_data) pos_index) 1)) this3 w3)
                          (\<lambda>e (this4, w4).
                             and_then
                               (on_world (destroy_n T (GetAddress new_data) (pos_index + 1))
                                  this4 w4)
                               (\<lambda>_ s. Throws e s)))
                       (\<lambda>_ (this4, w4).
                     and_then
                       (on_world (destroy_n T (Vector_begin this4) (v_size this4)) this4 w4)
                       (\<lambda>_ (this5, w5).
                          case RawMemory_Swap (v_data this5) new_data of
                            (d, nd) \<Rightarrow>
                              let this6 = this5\<lparr>v_data := d, v_size := v_size this5 + 1\<rparr>
                              in and_then (on_world (RawMemory_dtor nd) this6 w5) (\<lambda>_ s.
                                   Returns (ptr_add (Vector_begin this6) pos_index) s))))))
                (\<lambda>e (this2, w2).
                   and_then (on_world (RawMemory_dtor new_data) this2 w2) (\<lambda>_ s.
                     Throws e s)))))"

text \<open>\<^verbatim>\<open>iterator Erase(const_iterator pos)\<close>\<close>

definition Erase ::
  "('a, 'e) elem_type \<Rightarrow> ptr \<Rightarrow> Vector \<Rightarrow> ('a, 'e) world \<Rightarrow>
     (ptr, Vector \<times> ('a, 'e) world) outcome" where
  "Erase T pos this w =
     (case ptr_diff pos (Vector_begin this) of
        None \<Rightarrow> Undefined
      | Some pos_index \<Rightarrow>
          and_then
            (on_world
               (std_move T (ptr_add (ptr_add (Vector_begin this) pos_index) 1) (Vector_end this)
                  (ptr_add (Vector_begin this) pos_index)) this w)
            (\<lambda>_ (this1, w1).
               case ptr_sub (Vector_end this1) 1 of
                 None \<Rightarrow> Undefined
               | Some back \<Rightarrow>
                   and_then (on_world (destroy_at T back) this1 w1) (\<lambda>_ (this2, w2).
                     let this3 = this2\<lparr>v_size := v_size this2 - 1\<rparr>
                     in Returns (ptr_add (Vector_begin this3) pos_index) (this3, w2))))"

text \<open>
  The constructor calls \<^verbatim>\<open>T(value)\<close> and \<^verbatim>\<open>T(std::move(value))\<close> for an object of the
  caller. What the move leaves in the caller's object is the caller's.
\<close>

definition copy_of :: "('a, 'e) elem_type \<Rightarrow> 'a \<Rightarrow> 'e \<Rightarrow> 'a option \<times> 'e" where
  "copy_of T v = copy_ctor T v"

definition move_of :: "('a, 'e) elem_type \<Rightarrow> 'a \<Rightarrow> 'e \<Rightarrow> 'a option \<times> 'e" where
  "move_of T v e = (case move_ctor T v e of (r, e') \<Rightarrow> (map_option fst r, e'))"

text \<open>\<^verbatim>\<open>iterator Insert(const_iterator pos, const T& value)\<close>\<close>

definition Insert ::
  "('a, 'e) elem_type \<Rightarrow> ptr \<Rightarrow> 'a \<Rightarrow> Vector \<Rightarrow> ('a, 'e) world \<Rightarrow>
     (ptr, Vector \<times> ('a, 'e) world) outcome" where
  "Insert T pos v this w = Emplace T pos (copy_of T v) this w"

text \<open>\<^verbatim>\<open>iterator Insert(const_iterator pos, T&& value)\<close>\<close>

definition Insert_move ::
  "('a, 'e) elem_type \<Rightarrow> ptr \<Rightarrow> 'a \<Rightarrow> Vector \<Rightarrow> ('a, 'e) world \<Rightarrow>
     (ptr, Vector \<times> ('a, 'e) world) outcome" where
  "Insert_move T pos v this w = Emplace T pos (move_of T v) this w"

text \<open>\<^verbatim>\<open>void PushBack(T&& value)\<close>\<close>

definition PushBack_move ::
  "('a, 'e) elem_type \<Rightarrow> 'a \<Rightarrow> Vector \<Rightarrow> ('a, 'e) world \<Rightarrow>
     (unit, Vector \<times> ('a, 'e) world) outcome" where
  "PushBack_move T v this w = discard (EmplaceBack T (move_of T v) this w)"

text \<open>\<^verbatim>\<open>void PushBack(const T& value)\<close>\<close>

definition PushBack ::
  "('a, 'e) elem_type \<Rightarrow> 'a \<Rightarrow> Vector \<Rightarrow> ('a, 'e) world \<Rightarrow>
     (unit, Vector \<times> ('a, 'e) world) outcome" where
  "PushBack T v this w = discard (EmplaceBack T (copy_of T v) this w)"

text \<open>\<^verbatim>\<open>void Reserve(size_t new_capacity)\<close>\<close>

definition Reserve ::
  "('a, 'e) elem_type \<Rightarrow> nat \<Rightarrow> Vector \<Rightarrow> ('a, 'e) world \<Rightarrow>
     (unit, Vector \<times> ('a, 'e) world) outcome" where
  "Reserve T new_capacity this w =
     (if new_capacity \<le> RawMemory_Capacity (v_data this) then Returns () (this, w)
      else
        and_then (on_world (RawMemory_ctor new_capacity) this w) (\<lambda>new_data (this1, w1).
          try_catch
            (and_then (ReallocateData T new_data this1 w1) (\<lambda>new_data1 (this2, w2).
               on_world (RawMemory_dtor new_data1) this2 w2))
            (\<lambda>e (this2, w2).
               and_then (on_world (RawMemory_dtor new_data) this2 w2) (\<lambda>_ s. Throws e s))))"

text \<open>\<^verbatim>\<open>void Resize(size_t new_size)\<close>\<close>

definition Resize ::
  "('a, 'e) elem_type \<Rightarrow> nat \<Rightarrow> Vector \<Rightarrow> ('a, 'e) world \<Rightarrow>
     (unit, Vector \<times> ('a, 'e) world) outcome" where
  "Resize T new_size this w =
     (if new_size = v_size this then Returns () (this, w)
      else
        and_then
          (if new_size < v_size this
           then discard
                  (on_world
                     (destroy_n T (ptr_add (Vector_begin this) new_size) (v_size this - new_size))
                     this w)
           else and_then (Reserve T new_size this w) (\<lambda>_ (this1, w1).
                  discard
                    (on_world
                       (uninitialized_value_construct_n T (Vector_end this1)
                          (new_size - v_size this1)) this1 w1)))
          (\<lambda>_ (this2, w2). Returns () (this2\<lparr>v_size := new_size\<rparr>, w2)))"

text \<open>
  \<^verbatim>\<open>Vector& operator=(const Vector& rhs)\<close>, inside \<^verbatim>\<open>if (this != &rhs)\<close>: \<^verbatim>\<open>rhs\<close> is
  another object. The local \<^verbatim>\<open>rhs_copy\<close> is destroyed at the end of its scope.
\<close>

definition copy_assign_distinct ::
  "('a, 'e) elem_type \<Rightarrow> Vector \<Rightarrow> Vector \<Rightarrow> ('a, 'e) world \<Rightarrow>
     (unit, Vector \<times> ('a, 'e) world) outcome" where
  "copy_assign_distinct T rhs this w =
     (if v_size rhs > RawMemory_Capacity (v_data this) then
        and_then (on_world (Vector_copy_ctor T rhs) this w) (\<lambda>rhs_copy (this1, w1).
          case Vector_Swap this1 rhs_copy of
            (this2, rhs_copy1) \<Rightarrow> on_world (Vector_dtor T rhs_copy1) this2 w1)
      else
        and_then
          (if v_size rhs < v_size this then
             and_then
               (on_world
                  (copy_n T (GetAddress (v_data rhs)) (v_size rhs) (GetAddress (v_data this)))
                  this w)
               (\<lambda>it (this1, w1).
                  discard (on_world (destroy_n T it (v_size this1 - v_size rhs)) this1 w1))
           else
             and_then
               (on_world
                  (copy_n T (GetAddress (v_data rhs)) (v_size this) (GetAddress (v_data this)))
                  this w)
               (\<lambda>it (this1, w1).
                  discard
                    (on_world
                       (uninitialized_copy_n T (ptr_add (GetAddress (v_data rhs)) (v_size this1))
                          (v_size rhs - v_size this1) it) this1 w1)))
          (\<lambda>_ (this2, w2). Returns () (this2\<lparr>v_size := v_size rhs\<rparr>, w2)))"

section \<open>Vector objects\<close>

text \<open>
  The vectors of a program live at object addresses; \<^verbatim>\<open>this\<close> and the reference
  parameters of the member functions are such addresses, so that two parameters can name
  one object.
\<close>

type_synonym vid = nat

record ('a, 'e) program =
  objects :: "vid \<Rightarrow> Vector option"
  mem :: "('a, 'e) world"

text \<open>A member function of one object, run on the object at \<open>this\<close>.\<close>

definition call ::
  "(Vector \<Rightarrow> ('a, 'e) world \<Rightarrow> ('r, Vector \<times> ('a, 'e) world) outcome) \<Rightarrow> vid \<Rightarrow>
     ('a, 'e) program \<Rightarrow> ('r, ('a, 'e) program) outcome" where
  "call f this P =
     (case objects P this of
        None \<Rightarrow> Undefined
      | Some v \<Rightarrow>
          (case f v (mem P) of
             Returns r (v1, w1) \<Rightarrow> Returns r (P\<lparr>objects := (objects P)(this \<mapsto> v1), mem := w1\<rparr>)
           | Throws e (v1, w1) \<Rightarrow> Throws e (P\<lparr>objects := (objects P)(this \<mapsto> v1), mem := w1\<rparr>)
           | Undefined \<Rightarrow> Undefined))"

text \<open>\<^verbatim>\<open>Vector& operator=(const Vector& rhs)\<close>\<close>

definition copy_assignment ::
  "('a, 'e) elem_type \<Rightarrow> vid \<Rightarrow> vid \<Rightarrow> ('a, 'e) program \<Rightarrow> (vid, ('a, 'e) program) outcome" where
  "copy_assignment T this rhs P =
     (if this \<noteq> rhs then
        (case objects P rhs of
           None \<Rightarrow> Undefined
         | Some r \<Rightarrow> and_then (call (copy_assign_distinct T r) this P) (\<lambda>_ P1. Returns this P1))
      else
        (case objects P this of
           None \<Rightarrow> Undefined
         | Some v \<Rightarrow> Returns this P))"

text \<open>
  Construction of a new object at \<open>this\<close> by a constructor, and destruction of the
  object at \<open>this\<close>. When a constructor throws, no object exists.
\<close>

definition construct ::
  "(('a, 'e) world \<Rightarrow> (Vector, ('a, 'e) world) outcome) \<Rightarrow> vid \<Rightarrow> ('a, 'e) program \<Rightarrow>
     (unit, ('a, 'e) program) outcome" where
  "construct ctor this P =
     (case objects P this of
        Some v \<Rightarrow> Undefined
      | None \<Rightarrow>
          (case ctor (mem P) of
             Returns v w1 \<Rightarrow> Returns () (P\<lparr>objects := (objects P)(this \<mapsto> v), mem := w1\<rparr>)
           | Throws e w1 \<Rightarrow> Throws e (P\<lparr>mem := w1\<rparr>)
           | Undefined \<Rightarrow> Undefined))"

definition destroy ::
  "('a, 'e) elem_type \<Rightarrow> vid \<Rightarrow> ('a, 'e) program \<Rightarrow> (unit, ('a, 'e) program) outcome" where
  "destroy T this P =
     (case objects P this of
        None \<Rightarrow> Undefined
      | Some v \<Rightarrow>
          (case Vector_dtor T v (mem P) of
             Returns r w1 \<Rightarrow> Returns () (P\<lparr>objects := (objects P)(this := None), mem := w1\<rparr>)
           | Throws e w1 \<Rightarrow> Throws e (P\<lparr>objects := (objects P)(this := None), mem := w1\<rparr>)
           | Undefined \<Rightarrow> Undefined))"

text \<open>\<^verbatim>\<open>Vector(const Vector& other)\<close> and \<^verbatim>\<open>Vector(Vector&& other)\<close> for a new object.\<close>

definition copy_construction ::
  "('a, 'e) elem_type \<Rightarrow> vid \<Rightarrow> vid \<Rightarrow> ('a, 'e) program \<Rightarrow> (unit, ('a, 'e) program) outcome" where
  "copy_construction T this other P =
     (case objects P other of
        None \<Rightarrow> Undefined
      | Some v \<Rightarrow> construct (Vector_copy_ctor T v) this P)"

definition move_construction ::
  "vid \<Rightarrow> vid \<Rightarrow> ('a, 'e) program \<Rightarrow> (unit, ('a, 'e) program) outcome" where
  "move_construction this other P =
     (case objects P this of
        Some v \<Rightarrow> Undefined
      | None \<Rightarrow>
          (case objects P other of
             None \<Rightarrow> Undefined
           | Some v \<Rightarrow>
               (case Vector_move_ctor v of
                  (new, v1) \<Rightarrow>
                    Returns () (P\<lparr>objects := (objects P)(other \<mapsto> v1, this \<mapsto> new)\<rparr>))))"

text \<open>\<^verbatim>\<open>void Swap(Vector& other)\<close>; swapping an object with itself changes nothing.\<close>

definition swap_objects ::
  "vid \<Rightarrow> vid \<Rightarrow> ('a, 'e) program \<Rightarrow> (unit, ('a, 'e) program) outcome" where
  "swap_objects this other P =
     (case objects P this of
        None \<Rightarrow> Undefined
      | Some u \<Rightarrow>
          (case objects P other of
             None \<Rightarrow> Undefined
           | Some v \<Rightarrow>
               (case Vector_Swap u v of
                  (u1, v1) \<Rightarrow>
                    Returns () (P\<lparr>objects := (objects P)(other \<mapsto> v1, this \<mapsto> u1)\<rparr>))))"

text \<open>\<^verbatim>\<open>Vector& operator=(Vector&& rhs)\<close>\<close>

definition move_assignment ::
  "vid \<Rightarrow> vid \<Rightarrow> ('a, 'e) program \<Rightarrow> (vid, ('a, 'e) program) outcome" where
  "move_assignment this rhs P = and_then (swap_objects this rhs P) (\<lambda>_ P1. Returns this P1)"

section \<open>Specification vocabulary\<close>

subsection \<open>What a vector holds\<close>

text \<open>
  The elements of a vector are the live objects in the first \<^verbatim>\<open>size_\<close> slots of its block.
  A vector is well formed when it owns no block and has capacity and size zero, or owns a
  block of \<^verbatim>\<open>capacity_\<close> slots of which exactly the first \<^verbatim>\<open>size_\<close> hold live objects.
  The memory system is well formed when no block lies at or beyond the next fresh address
  and it is one of a 64-bit machine: \<^verbatim>\<open>sizeof(T)\<close> is a \<^verbatim>\<open>size_t\<close> other than zero, and a
  block has fewer than \<open>2 ^ 63\<close> bytes.
\<close>

fun live_values :: "'a slot list \<Rightarrow> 'a list" where
  "live_values [] = []"
| "live_values (Live x # s) = x # live_values s"
| "live_values (Raw # s) = live_values s"

definition elems :: "Vector \<Rightarrow> ('a, 'e) world \<Rightarrow> 'a list" where
  "elems v w =
     (case rm_buffer (v_data v) of
        Null \<Rightarrow> []
      | Ptr a i \<Rightarrow>
          (case heap w a of
             None \<Rightarrow> []
           | Some B \<Rightarrow> live_values (take (v_size v) (drop i B))))"

definition wf_vec :: "Vector \<Rightarrow> ('a, 'e) world \<Rightarrow> bool" where
  "wf_vec v w =
     (case rm_buffer (v_data v) of
        Null \<Rightarrow> rm_capacity (v_data v) = 0 \<and> v_size v = 0
      | Ptr a i \<Rightarrow>
          i = 0 \<and> v_size v \<le> rm_capacity (v_data v) \<and> length (elems v w) = v_size v \<and>
          heap w a =
            Some (map Live (elems v w) @ replicate (rm_capacity (v_data v) - v_size v) Raw))"

definition wf_world :: "('a, 'e) world \<Rightarrow> bool" where
  "wf_world w =
     ((\<forall>a. next_addr w \<le> a \<longrightarrow> heap w a = None) \<and>
      0 < sizeof_T w \<and> sizeof_T w < 2 ^ 64 \<and>
      (\<forall>a B. heap w a = Some B \<longrightarrow> length B * sizeof_T w < 2 ^ 63))"

text \<open>
  A vector holds its elements when the first \<^verbatim>\<open>size_\<close> slots of its block are live
  objects, whatever stands behind them; a vector with no block holds none. Every
  well-formed vector holds its elements.
\<close>

definition holds_elements :: "Vector \<Rightarrow> ('a, 'e) world \<Rightarrow> bool" where
  "holds_elements v w =
     (case rm_buffer (v_data v) of
        Null \<Rightarrow> v_size v = 0
      | Ptr a i \<Rightarrow>
          i = 0 \<and>
          (case heap w a of
             None \<Rightarrow> False
           | Some B \<Rightarrow> v_size v \<le> length B \<and> list_all (\<lambda>s. s \<noteq> Raw) (take (v_size v) B)))"

subsection \<open>What the element type does\<close>

text \<open>
  \<open>copy_result T x y\<close>: some call of the copy constructor on \<open>x\<close> gives \<open>y\<close>; likewise for
  the other operations. \<open>throwing_copy_ctor T\<close>: some call of the copy constructor throws.
  An element type is regular when a copy or a move, by construction or by assignment,
  gives an object equal to its source.
\<close>

definition value_init_result :: "('a, 'e) elem_type \<Rightarrow> 'a \<Rightarrow> bool" where
  "value_init_result T y = (\<exists>e. fst (value_init T e) = Some y)"

definition copy_result :: "('a, 'e) elem_type \<Rightarrow> 'a \<Rightarrow> 'a \<Rightarrow> bool" where
  "copy_result T x y = (\<exists>e. fst (copy_ctor T x e) = Some y)"

definition move_result :: "('a, 'e) elem_type \<Rightarrow> 'a \<Rightarrow> 'a \<Rightarrow> bool" where
  "move_result T x y = (\<exists>e r. fst (move_ctor T x e) = Some (y, r))"

definition copy_assign_result :: "('a, 'e) elem_type \<Rightarrow> 'a \<Rightarrow> 'a \<Rightarrow> bool" where
  "copy_assign_result T x y = (\<exists>t e. fst (copy_assign T t x e) = Some y)"

definition move_assign_result :: "('a, 'e) elem_type \<Rightarrow> 'a \<Rightarrow> 'a \<Rightarrow> bool" where
  "move_assign_result T x y = (\<exists>t e r. fst (move_assign T t x e) = Some (y, r))"

definition throwing_value_init :: "('a, 'e) elem_type \<Rightarrow> bool" where
  "throwing_value_init T = (\<exists>e. fst (value_init T e) = None)"

definition throwing_copy_ctor :: "('a, 'e) elem_type \<Rightarrow> bool" where
  "throwing_copy_ctor T = (\<exists>x e. fst (copy_ctor T x e) = None)"

definition throwing_move_ctor :: "('a, 'e) elem_type \<Rightarrow> bool" where
  "throwing_move_ctor T = (\<exists>x e. fst (move_ctor T x e) = None)"

definition throwing_copy_assign :: "('a, 'e) elem_type \<Rightarrow> bool" where
  "throwing_copy_assign T = (\<exists>t x e. fst (copy_assign T t x e) = None)"

definition throwing_move_assign :: "('a, 'e) elem_type \<Rightarrow> bool" where
  "throwing_move_assign T = (\<exists>t x e. fst (move_assign T t x e) = None)"

definition regular :: "('a, 'e) elem_type \<Rightarrow> bool" where
  "regular T =
     ((\<forall>x y. copy_result T x y \<longrightarrow> y = x) \<and> (\<forall>x y. move_result T x y \<longrightarrow> y = x) \<and>
      (\<forall>x y. copy_assign_result T x y \<longrightarrow> y = x) \<and> (\<forall>x y. move_assign_result T x y \<longrightarrow> y = x))"

text \<open>
  The compile-time choice of \<^verbatim>\<open>ReallocateData\<close> and \<^verbatim>\<open>ReallocatePartial\<close>, what a
  relocation of \<open>xs\<close> can produce, and whether it can throw.
\<close>

definition uses_move :: "('a, 'e) elem_type \<Rightarrow> bool" where
  "uses_move T = (is_nothrow_move_constructible T \<or> \<not> is_copy_constructible T)"

definition relocated :: "('a, 'e) elem_type \<Rightarrow> 'a list \<Rightarrow> 'a list \<Rightarrow> bool" where
  "relocated T xs ys =
     (if uses_move T then list_all2 (move_result T) xs ys else list_all2 (copy_result T) xs ys)"

definition throwing_relocation :: "('a, 'e) elem_type \<Rightarrow> bool" where
  "throwing_relocation T = (if uses_move T then throwing_move_ctor T else throwing_copy_ctor T)"

text \<open>The capacity a full vector of capacity \<open>n\<close> grows to.\<close>

definition grown :: "nat \<Rightarrow> nat" where
  "grown n = (if n = 0 then 1 else n * 2)"

subsection \<open>Runs of appends\<close>

text \<open>
  \<open>appends\<close> calls \<^verbatim>\<open>EmplaceBack\<close> once for each constructor call of the list and records
  \<^verbatim>\<open>Size()\<close> and \<^verbatim>\<open>Capacity()\<close> after each call. \<open>cap_seq k\<close> follows the growth policy in
  the words of the specification: the capacity stays while there is room and becomes
  \<open>max 1 (2 * capacity)\<close> when there is none.
\<close>

fun appends ::
  "('a, 'e) elem_type \<Rightarrow> ('e \<Rightarrow> 'a option \<times> 'e) list \<Rightarrow> Vector \<Rightarrow> ('a, 'e) world \<Rightarrow>
     ((nat \<times> nat) list, Vector \<times> ('a, 'e) world) outcome" where
  "appends T [] this w = Returns [] (this, w)"
| "appends T (mk # mks) this w =
     and_then (EmplaceBack T mk this w) (\<lambda>_ (this1, w1).
       and_then (appends T mks this1 w1) (\<lambda>obs s.
         Returns ((Size this1, Capacity this1) # obs) s))"

fun cap_seq :: "nat \<Rightarrow> nat" where
  "cap_seq 0 = 0"
| "cap_seq (Suc k) = (if k < cap_seq k then cap_seq k else max 1 (2 * cap_seq k))"

subsection \<open>Element types for the scenarios\<close>

text \<open>
  Modelled from the spec: the element types of the exception-injection scenarios, which
  are not among the sources. Objects are numbers; the environment counts how many more
  calls of the faulty operations succeed, and a faulty operation called at zero throws.
  A move leaves \<open>0\<close> in its source, and an object has four bytes. \<open>value_of x\<close> is a
  constructor call that gives \<open>x\<close> and cannot throw.
\<close>

datatype op_kind = ValueInit | CopyCtor | MoveCtor | CopyAssign | MoveAssign

definition counted :: "(op_kind \<Rightarrow> bool) \<Rightarrow> op_kind \<Rightarrow> 'r \<Rightarrow> nat \<Rightarrow> 'r option \<times> nat" where
  "counted faulty k r e =
     (if faulty k then (if e = 0 then (None, 0) else (Some r, e - 1)) else (Some r, e))"

definition test_type :: "bool \<Rightarrow> bool \<Rightarrow> (op_kind \<Rightarrow> bool) \<Rightarrow> (nat, nat) elem_type" where
  "test_type nothrow_move copyable faulty =
     \<lparr>is_nothrow_move_constructible = nothrow_move,
      is_copy_constructible = copyable,
      value_init = counted faulty ValueInit 0,
      copy_ctor = (\<lambda>x. counted faulty CopyCtor x),
      move_ctor = (\<lambda>x. counted faulty MoveCtor (x, 0)),
      copy_assign = (\<lambda>t x. counted faulty CopyAssign x),
      move_assign = (\<lambda>t x. counted faulty MoveAssign (x, 0)),
      dtor = (\<lambda>x e. e)\<rparr>"

definition empty_world :: "nat \<Rightarrow> 'e \<Rightarrow> ('a, 'e) world" where
  "empty_world m e = \<lparr>heap = (\<lambda>_. None), next_addr = 0, avail = m, env = e, sizeof_T = 4\<rparr>"

definition value_of :: "'a \<Rightarrow> 'e \<Rightarrow> 'a option \<times> 'e" where
  "value_of x e = (Some x, e)"

text \<open>
  The scenarios: a program whose one vector, the object 0, holds \<open>xs\<close> in a block of
  \<open>c\<close> slots at address 0; an element type that relocates by copy and whose copy
  constructor throws once the count is used up; one whose operations never throw.
\<close>

definition vec_of :: "nat list \<Rightarrow> nat \<Rightarrow> Vector" where
  "vec_of xs c = \<lparr>v_data = \<lparr>rm_buffer = Ptr 0 0, rm_capacity = c\<rparr>, v_size = length xs\<rparr>"

definition world_of :: "nat list \<Rightarrow> nat \<Rightarrow> nat \<Rightarrow> (nat, nat) world" where
  "world_of xs c e =
     \<lparr>heap = (\<lambda>_. None)(0 \<mapsto> map Live xs @ replicate (c - length xs) Raw),
      next_addr = 1, avail = 100, env = e, sizeof_T = 4\<rparr>"

definition program_of :: "nat list \<Rightarrow> nat \<Rightarrow> nat \<Rightarrow> (nat, nat) program" where
  "program_of xs c e = \<lparr>objects = (\<lambda>_. None)(0 \<mapsto> vec_of xs c), mem = world_of xs c e\<rparr>"

definition copy_throwing_type :: "(nat, nat) elem_type" where
  "copy_throwing_type = test_type False True (\<lambda>k. k = CopyCtor)"

definition plain_type :: "(nat, nat) elem_type" where
  "plain_type = test_type True True (\<lambda>k. False)"

text \<open>
  The memory once a reallocating \<^verbatim>\<open>Emplace\<close> has acquired its new block of \<open>c\<close> slots
  and constructed the new element \<open>x\<close> at index \<open>k\<close> of it.
\<close>

definition new_block_with :: "('a, 'e) world \<Rightarrow> nat \<Rightarrow> nat \<Rightarrow> 'a \<Rightarrow> 'e \<Rightarrow> ('a, 'e) world" where
  "new_block_with w c k x e =
     w\<lparr>heap := (heap w)(next_addr w \<mapsto> replicate k Raw @ Live x # replicate (c - Suc k) Raw),
       next_addr := Suc (next_addr w), avail := avail w - c, env := e\<rparr>"

text \<open>A type that cannot be copied and whose move constructor throws once the count is used up.\<close>

definition move_only_type :: "(nat, nat) elem_type" where
  "move_only_type = test_type False False (\<lambda>k. k = MoveCtor)"

text \<open>
  \<open>placed_at k x xs r\<close>: the outcome \<open>r\<close> of an insertion into a vector holding \<open>xs\<close> is a
  return of the position \<open>k\<close> of a well-formed vector that holds \<open>xs\<close> with \<open>x\<close> put in at
  index \<open>k\<close>, one element more, and reading at the returned position gives \<open>x\<close>.
\<close>

definition placed_at ::
  "nat \<Rightarrow> 'a \<Rightarrow> 'a list \<Rightarrow> (ptr, Vector \<times> ('a, 'e) world) outcome \<Rightarrow> bool" where
  "placed_at k x xs r =
     (\<exists>this' w'. r = Returns (ptr_add (Vector_begin this') k) (this', w') \<and>
        wf_vec this' w' \<and> Size this' = Suc (length xs) \<and>
        elems this' w' = take k xs @ x # drop k xs \<and>
        deref w' (ptr_add (Vector_begin this') k) = Some x)"

text \<open>Two vectors are separate when they do not own the same block.\<close>

definition separate :: "Vector \<Rightarrow> Vector \<Rightarrow> bool" where
  "separate u v =
     (case rm_buffer (v_data u) of
        Null \<Rightarrow> True
      | Ptr a i \<Rightarrow> (case rm_buffer (v_data v) of Null \<Rightarrow> True | Ptr b j \<Rightarrow> a \<noteq> b))"

text \<open>
  A program of two vectors: the object 0 holds \<open>xs\<close> in a block of \<open>c\<close> slots at address
  0, the object 1 holds \<open>ys\<close> in a block of \<open>d\<close> slots at address 1.
\<close>

definition two_vectors :: "nat list \<Rightarrow> nat \<Rightarrow> nat list \<Rightarrow> nat \<Rightarrow> nat \<Rightarrow> (nat, nat) program" where
  "two_vectors xs c ys d e =
     \<lparr>objects = (\<lambda>_. None)
        (0 \<mapsto> \<lparr>v_data = \<lparr>rm_buffer = Ptr 0 0, rm_capacity = c\<rparr>, v_size = length xs\<rparr>,
         1 \<mapsto> \<lparr>v_data = \<lparr>rm_buffer = Ptr 1 0, rm_capacity = d\<rparr>, v_size = length ys\<rparr>),
      mem = \<lparr>heap = (\<lambda>_. None)
                (0 \<mapsto> map Live xs @ replicate (c - length xs) Raw,
                 1 \<mapsto> map Live ys @ replicate (d - length ys) Raw),
             next_addr = 2, avail = 100, env = e, sizeof_T = 4\<rparr>\<rparr>"

text \<open>
  The invariant of a vector: the size is at most the capacity, a vector with no block
  has no elements, and the block of a vector has \<^verbatim>\<open>capacity_\<close> slots of which exactly the
  first \<^verbatim>\<open>size_\<close> hold live objects.
\<close>

definition invariant :: "Vector \<Rightarrow> ('a, 'e) world \<Rightarrow> bool" where
  "invariant v w =
     (case rm_buffer (v_data v) of
        Null \<Rightarrow> v_size v = 0
      | Ptr a i \<Rightarrow> wf_vec v w)"

text \<open>
  The public operations, on the objects of a program. A position is given by its index.
  \<open>perform\<close> gives the program after the operation, whether it returned or threw (the
  caller catches the exception), and nothing when the behaviour is undefined; a position
  outside the vector is outside the contract of the operation.
\<close>

datatype ('a, 'e) operation =
    New_default vid
  | New_sized vid nat
  | New_copy vid vid
  | New_move vid vid
  | Delete vid
  | Assign_copy vid vid
  | Assign_move vid vid
  | Do_Swap vid vid
  | Do_PopBack vid
  | Do_EmplaceBack vid "'e \<Rightarrow> 'a option \<times> 'e"
  | Do_Emplace vid nat "'e \<Rightarrow> 'a option \<times> 'e"
  | Do_Erase vid nat
  | Do_Insert vid nat 'a
  | Do_Insert_move vid nat 'a
  | Do_PushBack vid 'a
  | Do_PushBack_move vid 'a
  | Do_Reserve vid nat
  | Do_Resize vid nat

definition after :: "('r, 's) outcome \<Rightarrow> 's option" where
  "after m = (case m of Returns r s \<Rightarrow> Some s | Throws e s \<Rightarrow> Some s | Undefined \<Rightarrow> None)"

definition at_position ::
  "vid \<Rightarrow> nat \<Rightarrow> bool \<Rightarrow> (ptr \<Rightarrow> Vector \<Rightarrow> ('a, 'e) world \<Rightarrow> ('r, Vector \<times> ('a, 'e) world) outcome) \<Rightarrow>
     ('a, 'e) program \<Rightarrow> ('a, 'e) program option" where
  "at_position this k with_end f P =
     (case objects P this of
        None \<Rightarrow> None
      | Some v \<Rightarrow>
          if k < v_size v \<or> (with_end \<and> k = v_size v)
          then after (call (f (ptr_add (Vector_begin v) k)) this P)
          else None)"

fun perform ::
  "('a, 'e) elem_type \<Rightarrow> ('a, 'e) operation \<Rightarrow> ('a, 'e) program \<Rightarrow> ('a, 'e) program option" where
  "perform T (New_default i) P = after (construct (\<lambda>w. Returns Vector_default w) i P)"
| "perform T (New_sized i n) P = after (construct (Vector_sized T n) i P)"
| "perform T (New_copy i j) P = after (copy_construction T i j P)"
| "perform T (New_move i j) P = after (move_construction i j P)"
| "perform T (Delete i) P = after (destroy T i P)"
| "perform T (Assign_copy i j) P = after (copy_assignment T i j P)"
| "perform T (Assign_move i j) P = after (move_assignment i j P)"
| "perform T (Do_Swap i j) P = after (swap_objects i j P)"
| "perform T (Do_PopBack i) P = after (call (PopBack T) i P)"
| "perform T (Do_EmplaceBack i mk) P = after (call (EmplaceBack T mk) i P)"
| "perform T (Do_Emplace i k mk) P = at_position i k True (\<lambda>pos. Emplace T pos mk) P"
| "perform T (Do_Erase i k) P = at_position i k False (Erase T) P"
| "perform T (Do_Insert i k x) P = at_position i k True (\<lambda>pos. Insert T pos x) P"
| "perform T (Do_Insert_move i k x) P = at_position i k True (\<lambda>pos. Insert_move T pos x) P"
| "perform T (Do_PushBack i x) P = after (call (PushBack T x) i P)"
| "perform T (Do_PushBack_move i x) P = after (call (PushBack_move T x) i P)"
| "perform T (Do_Reserve i n) P = after (call (Reserve T n) i P)"
| "perform T (Do_Resize i n) P = after (call (Resize T n) i P)"

fun run ::
  "('a, 'e) elem_type \<Rightarrow> ('a, 'e) operation list \<Rightarrow> ('a, 'e) program \<Rightarrow> ('a, 'e) program option" where
  "run T [] P = Some P"
| "run T (op # ops) P = (case perform T op P of None \<Rightarrow> None | Some P1 \<Rightarrow> run T ops P1)"

definition start :: "nat \<Rightarrow> 'e \<Rightarrow> ('a, 'e) program" where
  "start m e = \<lparr>objects = (\<lambda>_. None), mem = empty_world m e\<rparr>"

text \<open>A type whose move assignment throws once the count is used up.\<close>

definition move_assign_throwing_type :: "(nat, nat) elem_type" where
  "move_assign_throwing_type = test_type True True (\<lambda>k. k = MoveAssign)"

text \<open>
  What an outcome returned or threw, the elements of a vector in a state, an object,
  a block and the invariant of an object in a program, a block of a memory, and whether
  an object of a program holds its elements.
\<close>

definition returned :: "('r, 's) outcome \<Rightarrow> 'r option" where
  "returned m = (case m of Returns r s \<Rightarrow> Some r | Throws e s \<Rightarrow> None | Undefined \<Rightarrow> None)"

definition thrown :: "('r, 's) outcome \<Rightarrow> exn option" where
  "thrown m = (case m of Returns r s \<Rightarrow> None | Throws e s \<Rightarrow> Some e | Undefined \<Rightarrow> None)"

definition elems_in :: "Vector \<times> ('a, 'e) world \<Rightarrow> 'a list" where
  "elems_in s = elems (fst s) (snd s)"

definition object_of :: "vid \<Rightarrow> ('a, 'e) program \<Rightarrow> Vector option" where
  "object_of i P = objects P i"

definition block_at :: "addr \<Rightarrow> ('a, 'e) program \<Rightarrow> 'a slot list option" where
  "block_at a P = heap (mem P) a"

definition block_at_world :: "addr \<Rightarrow> ('a, 'e) world \<Rightarrow> 'a slot list option" where
  "block_at_world a w = heap w a"

definition invariant_at :: "vid \<Rightarrow> ('a, 'e) program \<Rightarrow> bool" where
  "invariant_at i P = (case objects P i of None \<Rightarrow> False | Some v \<Rightarrow> invariant v (mem P))"

definition holds_elements_at :: "vid \<Rightarrow> ('a, 'e) program \<Rightarrow> bool" where
  "holds_elements_at i P =
     (case objects P i of None \<Rightarrow> False | Some v \<Rightarrow> holds_elements v (mem P))"

section \<open>Properties of the building blocks\<close>

text \<open>
  Blocks are updated as wholes below, so a map update is only ever looked up at the
  updated address or at a different one.
\<close>

declare fun_upd_apply [simp del]

declare fun_upd_same [simp] fun_upd_other [simp]

lemma and_then_simps [simp]:
  "and_then (Returns r s) f = f r s"
  "and_then (Throws e s) f = Throws e s"
  "and_then Undefined f = Undefined"
  by (simp_all add: and_then_def)

lemma try_catch_simps [simp]:
  "try_catch (Returns r s) h = Returns r s"
  "try_catch (Throws e s) h = h e s"
  "try_catch Undefined h = Undefined"
  by (simp_all add: try_catch_def)

lemma discard_simps [simp]:
  "discard (Returns r s) = Returns () s"
  "discard (Throws e s) = Throws e s"
  "discard Undefined = Undefined"
  by (simp_all add: discard_def)

lemma on_world_simps:
  "m w = Returns r w1 \<Longrightarrow> on_world m this w = Returns r (this, w1)"
  "m w = Throws e w1 \<Longrightarrow> on_world m this w = Throws e (this, w1)"
  "m w = Undefined \<Longrightarrow> on_world m this w = Undefined"
  by (simp_all add: on_world_def)

lemma slot_at_shape:
  "heap w a = Some (P @ s # S) \<Longrightarrow> slot_at w (Ptr a (length P)) = Some s"
  by (simp add: slot_at_def)

lemma put_slot_shape:
  "heap w a = Some (P @ s # S) \<Longrightarrow>
   put_slot (Ptr a (length P)) s' w = w\<lparr>heap := (heap w)(a \<mapsto> P @ s' # S)\<rparr>"
  by (simp add: put_slot_def)

lemma deref_shape:
  "heap w a = Some (P @ Live x # S) \<Longrightarrow> deref w (Ptr a (length P)) = Some x"
  by (simp add: deref_def slot_at_shape)

lemma construct_at_shape:
  "heap w a = Some (P @ Raw # S) \<Longrightarrow>
   construct_at (Ptr a (length P)) mk w =
     (case mk (env w) of
        (None, e') \<Rightarrow> Throws elem_exn (w\<lparr>env := e'\<rparr>)
      | (Some x, e') \<Rightarrow> Returns () (w\<lparr>heap := (heap w)(a \<mapsto> P @ Live x # S), env := e'\<rparr>))"
  by (simp add: construct_at_def slot_at_shape put_slot_shape split: prod.splits option.splits)

lemma destroy_at_shape:
  "heap w a = Some (P @ Live x # S) \<Longrightarrow>
   destroy_at T (Ptr a (length P)) w =
     Returns () (w\<lparr>heap := (heap w)(a \<mapsto> P @ Raw # S), env := dtor T x (env w)\<rparr>)"
  by (simp add: destroy_at_def deref_shape put_slot_shape)

lemma heap_upd_idem: "heap w a = Some B \<Longrightarrow> (heap w)(a \<mapsto> B) = heap w"
  by (rule fun_upd_idem)

lemma world_upd_idem [simp]: "w\<lparr>heap := heap w\<rparr> = w" "w\<lparr>env := env w\<rparr> = w"
  by simp_all

lemma destroy_n_shape:
  "heap w a = Some (P @ map Live xs @ S) \<Longrightarrow>
   destroy_n T (Ptr a (length P)) (length xs) w =
     Returns (Ptr a (length P + length xs))
       (w\<lparr>heap := (heap w)(a \<mapsto> P @ replicate (length xs) Raw @ S),
          env := foldl (\<lambda>e x. dtor T x e) (env w) xs\<rparr>)"
proof (induction xs arbitrary: P w)
  case Nil
  then show ?case by (simp add: heap_upd_idem)
next
  case (Cons x xs)
  have h: "heap w a = Some (P @ Live x # map Live xs @ S)" using Cons.prems by simp
  let ?w1 = "w\<lparr>heap := (heap w)(a \<mapsto> P @ Raw # map Live xs @ S), env := dtor T x (env w)\<rparr>"
  have h1: "heap ?w1 a = Some ((P @ [Raw]) @ map Live xs @ S)" by simp
  show ?case
    unfolding destroy_n.simps length_Cons destroy_at_shape [OF h] and_then_simps ptr_add.simps
    using Cons.IH [OF h1] apply (simp del: fun_upd_apply)
    done
qed

lemma copy_construct_at_shape:
  assumes "heap w a = Some (P' @ Live x # S')" and "heap w b = Some (P @ Raw # S)"
  shows "copy_construct_at T (Ptr b (length P)) (Ptr a (length P')) w =
     (case copy_ctor T x (env w) of
        (None, e') \<Rightarrow> Throws elem_exn (w\<lparr>env := e'\<rparr>)
      | (Some y, e') \<Rightarrow> Returns () (w\<lparr>heap := (heap w)(b \<mapsto> P @ Live y # S), env := e'\<rparr>))"
  by (simp add: copy_construct_at_def deref_shape [OF assms(1)] construct_at_shape [OF assms(2)])

lemma uninitialized_copy_n_shape:
  assumes "heap w a = Some (P' @ map Live xs @ S')"
    and "heap w b = Some (P @ replicate (length xs) Raw @ S)"
    and "a \<noteq> b"
  shows "(\<exists>ys e'. uninitialized_copy_n T (Ptr a (length P')) (length xs) (Ptr b (length P)) w =
            Returns (Ptr b (length P + length xs))
              (w\<lparr>heap := (heap w)(b \<mapsto> P @ map Live ys @ S), env := e'\<rparr>) \<and>
            list_all2 (copy_result T) xs ys) \<or>
         (\<exists>e'. uninitialized_copy_n T (Ptr a (length P')) (length xs) (Ptr b (length P)) w =
            Throws elem_exn (w\<lparr>env := e'\<rparr>) \<and> throwing_copy_ctor T)"
  using assms
proof (induction xs arbitrary: P P' w)
  case Nil
  from Nil have "(heap w)(b \<mapsto> P @ S) = heap w" by (simp add: heap_upd_idem)
  then have "uninitialized_copy_n T (Ptr a (length P')) (length []) (Ptr b (length P)) w =
      Returns (Ptr b (length P + length []))
        (w\<lparr>heap := (heap w)(b \<mapsto> P @ map Live [] @ S), env := env w\<rparr>)"
    by simp
  then show ?case by (intro disjI1 exI conjI) (assumption, simp)
next
  case (Cons x xs)
  have ha: "heap w a = Some (P' @ Live x # map Live xs @ S')"
    and hb: "heap w b = Some (P @ Raw # replicate (length xs) Raw @ S)"
    using Cons.prems by simp_all
  note step = copy_construct_at_shape [OF ha hb, of T]
  obtain r e1 where c: "copy_ctor T x (env w) = (r, e1)" by (cases "copy_ctor T x (env w)")
  show ?case
  proof (cases r)
    case None
    have "throwing_copy_ctor T"
      unfolding throwing_copy_ctor_def using c None by (metis fst_conv)
    moreover have "uninitialized_copy_n T (Ptr a (length P')) (length (x # xs)) (Ptr b (length P)) w =
        Throws elem_exn (w\<lparr>env := e1\<rparr>)"
      by (simp add: step c None)
    ultimately show ?thesis by blast
  next
    case (Some y)
    let ?w1 = "w\<lparr>heap := (heap w)(b \<mapsto> P @ Live y # replicate (length xs) Raw @ S), env := e1\<rparr>"
    have s1: "copy_construct_at T (Ptr b (length P)) (Ptr a (length P')) w = Returns () ?w1"
      by (simp add: step c Some)
    have ha1: "heap ?w1 a = Some ((P' @ [Live x]) @ map Live xs @ S')"
      using ha \<open>a \<noteq> b\<close> by simp
    have hb1: "heap ?w1 b = Some ((P @ [Live y]) @ replicate (length xs) Raw @ S)"
      by simp
    have cr: "copy_result T x y"
      unfolding copy_result_def using c Some by (metis fst_conv)
    from Cons.IH [OF ha1 hb1 \<open>a \<noteq> b\<close>]
    consider (ok) ys e' where
        "uninitialized_copy_n T (Ptr a (Suc (length P'))) (length xs) (Ptr b (Suc (length P))) ?w1 =
           Returns (Ptr b (Suc (length P) + length xs))
             (?w1\<lparr>heap := (heap ?w1)(b \<mapsto> (P @ [Live y]) @ map Live ys @ S), env := e'\<rparr>)"
        "list_all2 (copy_result T) xs ys"
      | (fail) e' where
        "uninitialized_copy_n T (Ptr a (Suc (length P'))) (length xs) (Ptr b (Suc (length P))) ?w1 =
           Throws elem_exn (?w1\<lparr>env := e'\<rparr>)" "throwing_copy_ctor T"
      by auto
    then show ?thesis
    proof cases
      case ok
      have "list_all2 (copy_result T) (x # xs) (y # ys)" using cr ok(2) by simp
      moreover have "uninitialized_copy_n T (Ptr a (length P')) (length (x # xs)) (Ptr b (length P)) w =
            Returns (Ptr b (length P + length (x # xs)))
              (w\<lparr>heap := (heap w)(b \<mapsto> P @ map Live (y # ys) @ S), env := e'\<rparr>)"
        by (simp add: s1 ok(1))
      ultimately show ?thesis by blast
    next
      case fail
      let ?w2 = "?w1\<lparr>env := e'\<rparr>"
      have hb2: "heap ?w2 b = Some (P @ Live y # replicate (length xs) Raw @ S)" by simp
      have "uninitialized_copy_n T (Ptr a (length P')) (length (x # xs)) (Ptr b (length P)) w =
            Throws elem_exn (w\<lparr>env := dtor T y e'\<rparr>)"
        using hb destroy_at_shape [OF hb2, of T] by (simp add: s1 fail(1) heap_upd_idem)
      then show ?thesis using fail(2) by blast
    qed
  qed
qed

lemma uninitialized_value_construct_n_shape:
  assumes "heap w a = Some (P @ replicate n Raw @ S)"
  shows "(\<exists>ys e'. uninitialized_value_construct_n T (Ptr a (length P)) n w =
            Returns (Ptr a (length P + n))
              (w\<lparr>heap := (heap w)(a \<mapsto> P @ map Live ys @ S), env := e'\<rparr>) \<and>
            length ys = n \<and> list_all (value_init_result T) ys) \<or>
         (\<exists>e'. uninitialized_value_construct_n T (Ptr a (length P)) n w =
            Throws elem_exn (w\<lparr>env := e'\<rparr>) \<and> throwing_value_init T)"
  using assms
proof (induction n arbitrary: P w)
  case 0
  from 0 have "(heap w)(a \<mapsto> P @ S) = heap w" by (simp add: heap_upd_idem)
  then have "uninitialized_value_construct_n T (Ptr a (length P)) 0 w =
      Returns (Ptr a (length P + 0))
        (w\<lparr>heap := (heap w)(a \<mapsto> P @ map Live [] @ S), env := env w\<rparr>)"
    by simp
  then show ?case by (intro disjI1 exI conjI) (assumption, simp_all)
next
  case (Suc n)
  have ha: "heap w a = Some (P @ Raw # replicate n Raw @ S)"
    using Suc.prems by simp
  note step = construct_at_shape [OF ha, of "value_init T"]
  obtain r e1 where c: "value_init T (env w) = (r, e1)" by (cases "value_init T (env w)")
  show ?case
  proof (cases r)
    case None
    have "throwing_value_init T"
      unfolding throwing_value_init_def using c None by (metis fst_conv)
    moreover have "uninitialized_value_construct_n T (Ptr a (length P)) (Suc n) w =
        Throws elem_exn (w\<lparr>env := e1\<rparr>)"
      by (simp add: step c None)
    ultimately show ?thesis by blast
  next
    case (Some y)
    let ?w1 = "w\<lparr>heap := (heap w)(a \<mapsto> P @ Live y # replicate n Raw @ S), env := e1\<rparr>"
    have s1: "construct_at (Ptr a (length P)) (value_init T) w = Returns () ?w1"
      by (simp add: step c Some)
    have ha1: "heap ?w1 a = Some ((P @ [Live y]) @ replicate n Raw @ S)"
      by simp
    have cr: "value_init_result T y"
      unfolding value_init_result_def using c Some by (metis fst_conv)
    from Suc.IH [OF ha1]
    consider (ok) ys e' where
        "uninitialized_value_construct_n T (Ptr a (Suc (length P))) n ?w1 =
           Returns (Ptr a (Suc (length P) + n))
             (?w1\<lparr>heap := (heap ?w1)(a \<mapsto> (P @ [Live y]) @ map Live ys @ S), env := e'\<rparr>)"
        "length ys = n" "list_all (value_init_result T) ys"
      | (fail) e' where
        "uninitialized_value_construct_n T (Ptr a (Suc (length P))) n ?w1 =
           Throws elem_exn (?w1\<lparr>env := e'\<rparr>)" "throwing_value_init T"
      by auto
    then show ?thesis
    proof cases
      case ok
      have "length (y # ys) = Suc n" "list_all (value_init_result T) (y # ys)"
        using cr ok(2,3) by simp_all
      moreover have "uninitialized_value_construct_n T (Ptr a (length P)) (Suc n) w =
            Returns (Ptr a (length P + Suc n))
              (w\<lparr>heap := (heap w)(a \<mapsto> P @ map Live (y # ys) @ S), env := e'\<rparr>)"
        by (simp add: s1 ok(1))
      ultimately show ?thesis by blast
    next
      case fail
      let ?w2 = "?w1\<lparr>env := e'\<rparr>"
      have hb2: "heap ?w2 a = Some (P @ Live y # replicate n Raw @ S)" by simp
      have "uninitialized_value_construct_n T (Ptr a (length P)) (Suc n) w =
            Throws elem_exn (w\<lparr>env := dtor T y e'\<rparr>)"
        using ha destroy_at_shape [OF hb2, of T] by (simp add: s1 fail(1) heap_upd_idem)
      then show ?thesis using fail(2) by blast
    qed
  qed
qed

lemma slot_at_nth:
  "heap w a = Some B \<Longrightarrow> i < length B \<Longrightarrow> slot_at w (Ptr a i) = Some (B ! i)"
  by (simp add: slot_at_def)

lemma put_slot_nth:
  "heap w a = Some B \<Longrightarrow> put_slot (Ptr a i) s w = w\<lparr>heap := (heap w)(a \<mapsto> B[i := s])\<rparr>"
  by (simp add: put_slot_def)

lemma move_construct_at_shape:
  assumes "heap w a = Some (P' @ Live x # S')" and "heap w b = Some (P @ Raw # S)" and "a \<noteq> b"
  shows "move_construct_at T (Ptr b (length P)) (Ptr a (length P')) w =
     (case move_ctor T x (env w) of
        (None, e') \<Rightarrow> Throws elem_exn (w\<lparr>env := e'\<rparr>)
      | (Some (y, r), e') \<Rightarrow>
          Returns () (w\<lparr>heap := (heap w)(a \<mapsto> P' @ Live r # S', b \<mapsto> P @ Live y # S),
                        env := e'\<rparr>))"
proof -
  have "\<And>e' r. heap (put_slot (Ptr a (length P')) (Live r) (w\<lparr>env := e'\<rparr>)) b = Some (P @ Raw # S)"
    using assms by (simp add: put_slot_def)
  then show ?thesis
    using assms
    by (simp add: move_construct_at_def deref_shape [OF assms(1)] slot_at_shape [OF assms(2)]
        put_slot_shape split: prod.splits option.splits)
qed

lemma uninitialized_move_n_shape:
  assumes "heap w a = Some (P' @ map Live xs @ S')"
    and "heap w b = Some (P @ replicate (length xs) Raw @ S)"
    and "a \<noteq> b"
  shows "(\<exists>ys rs e'. uninitialized_move_n T (Ptr a (length P')) (length xs) (Ptr b (length P)) w =
            Returns (Ptr a (length P' + length xs), Ptr b (length P + length xs))
              (w\<lparr>heap := (heap w)(a \<mapsto> P' @ map Live rs @ S', b \<mapsto> P @ map Live ys @ S),
                 env := e'\<rparr>) \<and>
            list_all2 (move_result T) xs ys \<and> length rs = length xs) \<or>
         (\<exists>rs e'. uninitialized_move_n T (Ptr a (length P')) (length xs) (Ptr b (length P)) w =
            Throws elem_exn (w\<lparr>heap := (heap w)(a \<mapsto> P' @ map Live rs @ S'), env := e'\<rparr>) \<and>
            length rs = length xs \<and> throwing_move_ctor T)"
  using assms
proof (induction xs arbitrary: P P' w)
  case Nil
  from Nil have "(heap w)(a \<mapsto> P' @ S', b \<mapsto> P @ S) = heap w"
    by (simp add: heap_upd_idem)
  then have "uninitialized_move_n T (Ptr a (length P')) (length []) (Ptr b (length P)) w =
      Returns (Ptr a (length P' + length []), Ptr b (length P + length []))
        (w\<lparr>heap := (heap w)(a \<mapsto> P' @ map Live [] @ S', b \<mapsto> P @ map Live [] @ S),
           env := env w\<rparr>)"
    by simp
  then show ?case by (intro disjI1 exI conjI) (assumption, simp_all)
next
  case (Cons x xs)
  have ha: "heap w a = Some (P' @ Live x # map Live xs @ S')"
    and hb: "heap w b = Some (P @ Raw # replicate (length xs) Raw @ S)"
    using Cons.prems by simp_all
  note step = move_construct_at_shape [OF ha hb \<open>a \<noteq> b\<close>, of T]
  obtain q e1 where c: "move_ctor T x (env w) = (q, e1)" by (cases "move_ctor T x (env w)")
  show ?case
  proof (cases q)
    case None
    have "throwing_move_ctor T"
      unfolding throwing_move_ctor_def using c None by (metis fst_conv)
    moreover have "uninitialized_move_n T (Ptr a (length P')) (length (x # xs)) (Ptr b (length P)) w =
        Throws elem_exn (w\<lparr>heap := (heap w)(a \<mapsto> P' @ map Live (x # xs) @ S'), env := e1\<rparr>)"
      using ha by (simp add: step c None heap_upd_idem)
    ultimately show ?thesis by (intro disjI2 exI [of _ "x # xs"] exI [of _ e1]) simp
  next
    case (Some yr)
    obtain y r where yr: "yr = (y, r)" by (cases yr)
    let ?w1 = "w\<lparr>heap := (heap w)(a \<mapsto> P' @ Live r # map Live xs @ S',
                   b \<mapsto> P @ Live y # replicate (length xs) Raw @ S), env := e1\<rparr>"
    have s1: "move_construct_at T (Ptr b (length P)) (Ptr a (length P')) w = Returns () ?w1"
      by (simp add: step c Some yr)
    have ha1: "heap ?w1 a = Some ((P' @ [Live r]) @ map Live xs @ S')"
      using \<open>a \<noteq> b\<close> by simp
    have hb1: "heap ?w1 b = Some ((P @ [Live y]) @ replicate (length xs) Raw @ S)"
      by simp
    have cr: "move_result T x y"
      unfolding move_result_def using c Some yr by (metis fst_conv)
    from Cons.IH [OF ha1 hb1 \<open>a \<noteq> b\<close>]
    consider (ok) ys rs e' where
        "uninitialized_move_n T (Ptr a (Suc (length P'))) (length xs) (Ptr b (Suc (length P))) ?w1 =
           Returns (Ptr a (Suc (length P') + length xs), Ptr b (Suc (length P) + length xs))
             (?w1\<lparr>heap := (heap ?w1)(a \<mapsto> (P' @ [Live r]) @ map Live rs @ S',
                        b \<mapsto> (P @ [Live y]) @ map Live ys @ S), env := e'\<rparr>)"
        "list_all2 (move_result T) xs ys" "length rs = length xs"
      | (fail) rs e' where
        "uninitialized_move_n T (Ptr a (Suc (length P'))) (length xs) (Ptr b (Suc (length P))) ?w1 =
           Throws elem_exn
             (?w1\<lparr>heap := (heap ?w1)(a \<mapsto> (P' @ [Live r]) @ map Live rs @ S'), env := e'\<rparr>)"
        "length rs = length xs" "throwing_move_ctor T"
      by auto
    then show ?thesis
    proof cases
      case ok
      have "list_all2 (move_result T) (x # xs) (y # ys)" "length (r # rs) = length (x # xs)"
        using cr ok(2,3) by simp_all
      moreover have
        "uninitialized_move_n T (Ptr a (length P')) (length (x # xs)) (Ptr b (length P)) w =
            Returns (Ptr a (length P' + length (x # xs)), Ptr b (length P + length (x # xs)))
              (w\<lparr>heap := (heap w)(a \<mapsto> P' @ map Live (r # rs) @ S',
                     b \<mapsto> P @ map Live (y # ys) @ S), env := e'\<rparr>)"
        using \<open>a \<noteq> b\<close> by (simp add: s1 ok(1) fun_upd_twist)
      ultimately show ?thesis by blast
    next
      case fail
      let ?w2 = "?w1\<lparr>heap := (heap ?w1)(a \<mapsto> (P' @ [Live r]) @ map Live rs @ S'), env := e'\<rparr>"
      have hb2: "heap ?w2 b = Some (P @ Live y # replicate (length xs) Raw @ S)"
        using \<open>a \<noteq> b\<close> by simp
      have "(heap w)(a \<mapsto> P' @ Live r # map Live rs @ S',
               b \<mapsto> P @ Raw # replicate (length xs) Raw @ S) =
            (heap w)(a \<mapsto> P' @ Live r # map Live rs @ S')"
        using hb \<open>a \<noteq> b\<close> by (metis fun_upd_idem fun_upd_other)
      then have "uninitialized_move_n T (Ptr a (length P')) (length (x # xs)) (Ptr b (length P)) w =
            Throws elem_exn
              (w\<lparr>heap := (heap w)(a \<mapsto> P' @ map Live (r # rs) @ S'), env := dtor T y e'\<rparr>)"
        using \<open>a \<noteq> b\<close> destroy_at_shape [OF hb2, of T]
        by (simp add: s1 fail(1) fun_upd_twist)
      moreover have "length (r # rs) = length (x # xs)" using fail(2) by simp
      ultimately show ?thesis using fail(3) by blast
    qed
  qed
qed

lemma copy_assign_at_shape:
  assumes "heap w a = Some (P' @ Live x # S')" and "heap w b = Some (P @ Live t # S)"
  shows "copy_assign_at T (Ptr b (length P)) (Ptr a (length P')) w =
     (case copy_assign T t x (env w) of
        (None, e') \<Rightarrow> Throws elem_exn (w\<lparr>env := e'\<rparr>)
      | (Some y, e') \<Rightarrow> Returns () (w\<lparr>heap := (heap w)(b \<mapsto> P @ Live y # S), env := e'\<rparr>))"
  using assms
  by (simp add: copy_assign_at_def deref_shape [OF assms(1)] deref_shape [OF assms(2)]
      put_slot_shape split: prod.splits option.splits)

lemma copy_n_shape:
  assumes "heap w a = Some (P' @ map Live xs @ S')"
    and "heap w b = Some (P @ map Live ts @ S)"
    and "length ts = length xs"
    and "a \<noteq> b"
  shows "(\<exists>ys e'. copy_n T (Ptr a (length P')) (length xs) (Ptr b (length P)) w =
            Returns (Ptr b (length P + length xs))
              (w\<lparr>heap := (heap w)(b \<mapsto> P @ map Live ys @ S), env := e'\<rparr>) \<and>
            list_all2 (copy_assign_result T) xs ys) \<or>
         (\<exists>zs e'. copy_n T (Ptr a (length P')) (length xs) (Ptr b (length P)) w =
            Throws elem_exn (w\<lparr>heap := (heap w)(b \<mapsto> P @ map Live zs @ S), env := e'\<rparr>) \<and>
            length zs = length xs \<and> throwing_copy_assign T)"
  using assms
proof (induction xs arbitrary: P P' ts w)
  case Nil
  from Nil have "(heap w)(b \<mapsto> P @ S) = heap w" by (simp add: heap_upd_idem)
  then have "copy_n T (Ptr a (length P')) (length []) (Ptr b (length P)) w =
      Returns (Ptr b (length P + length []))
        (w\<lparr>heap := (heap w)(b \<mapsto> P @ map Live [] @ S), env := env w\<rparr>)"
    by simp
  then show ?case by (intro disjI1 exI conjI) (assumption, simp)
next
  case (Cons x xs)
  obtain t ts' where ts: "ts = t # ts'" "length ts' = length xs"
    using Cons.prems(3) by (cases ts) auto
  have ha: "heap w a = Some (P' @ Live x # map Live xs @ S')"
    and hb: "heap w b = Some (P @ Live t # map Live ts' @ S)"
    using Cons.prems ts by simp_all
  note step = copy_assign_at_shape [OF ha hb, of T]
  obtain q e1 where c: "copy_assign T t x (env w) = (q, e1)" by (cases "copy_assign T t x (env w)")
  show ?case
  proof (cases q)
    case None
    have "throwing_copy_assign T"
      unfolding throwing_copy_assign_def using c None by (metis fst_conv)
    moreover have "copy_n T (Ptr a (length P')) (length (x # xs)) (Ptr b (length P)) w =
        Throws elem_exn (w\<lparr>heap := (heap w)(b \<mapsto> P @ map Live (t # ts') @ S), env := e1\<rparr>)"
      using hb by (simp add: step c None heap_upd_idem)
    ultimately show ?thesis using ts(2)
      by (intro disjI2 exI [of _ "t # ts'"] exI [of _ e1]) simp
  next
    case (Some y)
    let ?w1 = "w\<lparr>heap := (heap w)(b \<mapsto> P @ Live y # map Live ts' @ S), env := e1\<rparr>"
    have s1: "copy_assign_at T (Ptr b (length P)) (Ptr a (length P')) w = Returns () ?w1"
      by (simp add: step c Some)
    have ha1: "heap ?w1 a = Some ((P' @ [Live x]) @ map Live xs @ S')"
      using ha \<open>a \<noteq> b\<close> by simp
    have hb1: "heap ?w1 b = Some ((P @ [Live y]) @ map Live ts' @ S)"
      by simp
    have cr: "copy_assign_result T x y"
      unfolding copy_assign_result_def using c Some by (metis fst_conv)
    from Cons.IH [OF ha1 hb1 ts(2) \<open>a \<noteq> b\<close>]
    consider (ok) ys e' where
        "copy_n T (Ptr a (Suc (length P'))) (length xs) (Ptr b (Suc (length P))) ?w1 =
           Returns (Ptr b (Suc (length P) + length xs))
             (?w1\<lparr>heap := (heap ?w1)(b \<mapsto> (P @ [Live y]) @ map Live ys @ S), env := e'\<rparr>)"
        "list_all2 (copy_assign_result T) xs ys"
      | (fail) zs e' where
        "copy_n T (Ptr a (Suc (length P'))) (length xs) (Ptr b (Suc (length P))) ?w1 =
           Throws elem_exn
             (?w1\<lparr>heap := (heap ?w1)(b \<mapsto> (P @ [Live y]) @ map Live zs @ S), env := e'\<rparr>)"
        "length zs = length xs" "throwing_copy_assign T"
      by auto
    then show ?thesis
    proof cases
      case ok
      have "list_all2 (copy_assign_result T) (x # xs) (y # ys)" using cr ok(2) by simp
      moreover have "copy_n T (Ptr a (length P')) (length (x # xs)) (Ptr b (length P)) w =
            Returns (Ptr b (length P + length (x # xs)))
              (w\<lparr>heap := (heap w)(b \<mapsto> P @ map Live (y # ys) @ S), env := e'\<rparr>)"
        by (simp add: s1 ok(1))
      ultimately show ?thesis by blast
    next
      case fail
      have "copy_n T (Ptr a (length P')) (length (x # xs)) (Ptr b (length P)) w =
            Throws elem_exn
              (w\<lparr>heap := (heap w)(b \<mapsto> P @ map Live (y # zs) @ S), env := e'\<rparr>)"
        by (simp add: s1 fail(1))
      moreover have "length (y # zs) = length (x # xs)" using fail(2) by simp
      ultimately show ?thesis using fail(3) by blast
    qed
  qed
qed


lemma move_assign_at_up:
  assumes "heap w a = Some (P @ Live x # Live t # S)"
  shows "move_assign_at T (Ptr a (Suc (length P))) (Ptr a (length P)) w =
     (case move_assign T t x (env w) of
        (None, e') \<Rightarrow> Throws elem_exn (w\<lparr>env := e'\<rparr>)
      | (Some (y, r), e') \<Rightarrow>
          Returns () (w\<lparr>heap := (heap w)(a \<mapsto> P @ Live r # Live y # S), env := e'\<rparr>))"
proof -
  have d2: "deref w (Ptr a (length P)) = Some x" by (rule deref_shape [OF assms])
  have "heap w a = Some ((P @ [Live x]) @ Live t # S)" using assms by simp
  from deref_shape [OF this] have d1: "deref w (Ptr a (Suc (length P))) = Some t" by simp
  show ?thesis
    using assms
    by (simp add: move_assign_at_def d1 d2 put_slot_def list_update_append
        split: prod.splits option.splits)
qed


lemma move_backward_n_shape:
  assumes "heap w a = Some (P @ map Live xs @ Live t # S)"
  shows "(\<exists>ys r e'. move_backward_n T (Ptr a (length P + length xs)) (length xs)
              (Ptr a (Suc (length P + length xs))) w =
            Returns (Ptr a (Suc (length P)))
              (w\<lparr>heap := (heap w)(a \<mapsto> P @ Live r # map Live ys @ S), env := e'\<rparr>) \<and>
            list_all2 (move_assign_result T) xs ys) \<or>
         (\<exists>zs e'. move_backward_n T (Ptr a (length P + length xs)) (length xs)
              (Ptr a (Suc (length P + length xs))) w =
            Throws elem_exn (w\<lparr>heap := (heap w)(a \<mapsto> P @ map Live zs @ S), env := e'\<rparr>) \<and>
            length zs = Suc (length xs) \<and> throwing_move_assign T)"
  using assms
proof (induction xs arbitrary: S t w rule: rev_induct)
  case Nil
  from Nil have "(heap w)(a \<mapsto> P @ Live t # S) = heap w" by (simp add: heap_upd_idem)
  then have "move_backward_n T (Ptr a (length P + length [])) (length [])
        (Ptr a (Suc (length P + length []))) w =
      Returns (Ptr a (Suc (length P)))
        (w\<lparr>heap := (heap w)(a \<mapsto> P @ Live t # map Live [] @ S), env := env w\<rparr>)"
    by simp
  then show ?case by (intro disjI1 exI conjI) (assumption, simp)
next
  case (snoc x xs)
  have ha: "heap w a = Some ((P @ map Live xs) @ Live x # Live t # S)"
    using snoc.prems by simp
  have step: "move_assign_at T (Ptr a (Suc (length P + length xs))) (Ptr a (length P + length xs)) w =
     (case move_assign T t x (env w) of
        (None, e') \<Rightarrow> Throws elem_exn (w\<lparr>env := e'\<rparr>)
      | (Some (y, r), e') \<Rightarrow>
          Returns () (w\<lparr>heap := (heap w)(a \<mapsto> (P @ map Live xs) @ Live r # Live y # S), env := e'\<rparr>))"
    using move_assign_at_up [OF ha, of T] by simp
  obtain q e1 where c: "move_assign T t x (env w) = (q, e1)" by (cases "move_assign T t x (env w)")
  show ?case
  proof (cases q)
    case None
    have "throwing_move_assign T"
      unfolding throwing_move_assign_def using c None by (metis fst_conv)
    moreover have "move_backward_n T (Ptr a (length P + length (xs @ [x]))) (length (xs @ [x]))
          (Ptr a (Suc (length P + length (xs @ [x])))) w =
        Throws elem_exn
          (w\<lparr>heap := (heap w)(a \<mapsto> P @ map Live (xs @ [x, t]) @ S), env := e1\<rparr>)"
      using ha by (simp add: step c None heap_upd_idem)
    ultimately show ?thesis
      by (intro disjI2 exI [of _ "xs @ [x, t]"] exI [of _ e1]) simp
  next
    case (Some yr)
    obtain y r where yr: "yr = (y, r)" by (cases yr)
    let ?w1 = "w\<lparr>heap := (heap w)(a \<mapsto> (P @ map Live xs) @ Live r # Live y # S), env := e1\<rparr>"
    have s1: "move_assign_at T (Ptr a (Suc (length P + length xs))) (Ptr a (length P + length xs)) w
        = Returns () ?w1"
      by (simp add: step c Some yr)
    have ha1: "heap ?w1 a = Some (P @ map Live xs @ Live r # (Live y # S))"
      by simp
    have cr: "move_assign_result T x y"
      unfolding move_assign_result_def using c Some yr by (metis fst_conv)
    from snoc.IH [OF ha1]
    consider (ok) ys r' e' where
        "move_backward_n T (Ptr a (length P + length xs)) (length xs)
            (Ptr a (Suc (length P + length xs))) ?w1 =
           Returns (Ptr a (Suc (length P)))
             (?w1\<lparr>heap := (heap ?w1)(a \<mapsto> P @ Live r' # map Live ys @ (Live y # S)), env := e'\<rparr>)"
        "list_all2 (move_assign_result T) xs ys"
      | (fail) zs e' where
        "move_backward_n T (Ptr a (length P + length xs)) (length xs)
            (Ptr a (Suc (length P + length xs))) ?w1 =
           Throws elem_exn
             (?w1\<lparr>heap := (heap ?w1)(a \<mapsto> P @ map Live zs @ (Live y # S)), env := e'\<rparr>)"
        "length zs = Suc (length xs)" "throwing_move_assign T"
      by auto
    then show ?thesis
    proof cases
      case ok
      have "list_all2 (move_assign_result T) (xs @ [x]) (ys @ [y])"
        using cr ok(2) by (simp add: list_all2_appendI)
      moreover have "move_backward_n T (Ptr a (length P + length (xs @ [x]))) (length (xs @ [x]))
              (Ptr a (Suc (length P + length (xs @ [x])))) w =
            Returns (Ptr a (Suc (length P)))
              (w\<lparr>heap := (heap w)(a \<mapsto> P @ Live r' # map Live (ys @ [y]) @ S), env := e'\<rparr>)"
        using ok(1) by (simp add: s1)
      ultimately show ?thesis by blast
    next
      case fail
      have "move_backward_n T (Ptr a (length P + length (xs @ [x]))) (length (xs @ [x]))
              (Ptr a (Suc (length P + length (xs @ [x])))) w =
            Throws elem_exn
              (w\<lparr>heap := (heap w)(a \<mapsto> P @ map Live (zs @ [y]) @ S), env := e'\<rparr>)"
        using fail(1) by (simp add: s1)
      moreover have "length (zs @ [y]) = Suc (length (xs @ [x]))" using fail(2) by simp
      ultimately show ?thesis using fail(3) by blast
    qed
  qed
qed

lemma ReallocatePartial_shape:
  assumes "heap w a = Some (P' @ map Live xs @ S')"
    and "heap w b = Some (P @ replicate (length xs) Raw @ S)"
    and "a \<noteq> b"
  shows "(\<exists>ys rs e'. ReallocatePartial T (Ptr a (length P')) (length xs) (Ptr b (length P)) w =
            Returns ()
              (w\<lparr>heap := (heap w)(a \<mapsto> P' @ map Live rs @ S', b \<mapsto> P @ map Live ys @ S),
                 env := e'\<rparr>) \<and>
            relocated T xs ys \<and> length rs = length xs \<and> (\<not> uses_move T \<longrightarrow> rs = xs)) \<or>
         (\<exists>rs e'. ReallocatePartial T (Ptr a (length P')) (length xs) (Ptr b (length P)) w =
            Throws elem_exn (w\<lparr>heap := (heap w)(a \<mapsto> P' @ map Live rs @ S'), env := e'\<rparr>) \<and>
            length rs = length xs \<and> (\<not> uses_move T \<longrightarrow> rs = xs) \<and> throwing_relocation T)"
proof (cases "uses_move T")
  case True
  then have u: "is_nothrow_move_constructible T \<or> \<not> is_copy_constructible T"
    by (simp add: uses_move_def)
  from uninitialized_move_n_shape [OF assms, of T]
  show ?thesis
  proof (elim disjE exE conjE)
    fix ys rs e'
    assume "uninitialized_move_n T (Ptr a (length P')) (length xs) (Ptr b (length P)) w =
       Returns (Ptr a (length P' + length xs), Ptr b (length P + length xs))
        (w\<lparr>heap := (heap w)(a \<mapsto> P' @ map Live rs @ S', b \<mapsto> P @ map Live ys @ S), env := e'\<rparr>)"
      and "list_all2 (move_result T) xs ys" and "length rs = length xs"
    then have "ReallocatePartial T (Ptr a (length P')) (length xs) (Ptr b (length P)) w =
            Returns ()
              (w\<lparr>heap := (heap w)(a \<mapsto> P' @ map Live rs @ S', b \<mapsto> P @ map Live ys @ S),
                 env := e'\<rparr>)" "relocated T xs ys" "length rs = length xs"
      using True u by (simp_all add: ReallocatePartial_def relocated_def)
    then show ?thesis using True by blast
  next
    fix rs e'
    assume "uninitialized_move_n T (Ptr a (length P')) (length xs) (Ptr b (length P)) w =
       Throws elem_exn (w\<lparr>heap := (heap w)(a \<mapsto> P' @ map Live rs @ S'), env := e'\<rparr>)"
      and "length rs = length xs" and "throwing_move_ctor T"
    then have "ReallocatePartial T (Ptr a (length P')) (length xs) (Ptr b (length P)) w =
            Throws elem_exn (w\<lparr>heap := (heap w)(a \<mapsto> P' @ map Live rs @ S'), env := e'\<rparr>)"
        "length rs = length xs" "throwing_relocation T"
      using True u by (simp_all add: ReallocatePartial_def throwing_relocation_def)
    then show ?thesis using True by blast
  qed
next
  case False
  then have u: "\<not> (is_nothrow_move_constructible T \<or> \<not> is_copy_constructible T)"
    by (simp add: uses_move_def)
  have idem: "(heap w)(a \<mapsto> P' @ map Live xs @ S') = heap w"
    using assms(1) by (simp add: heap_upd_idem)
  from uninitialized_copy_n_shape [OF assms, of T]
  show ?thesis
  proof (elim disjE exE conjE)
    fix ys e'
    assume "uninitialized_copy_n T (Ptr a (length P')) (length xs) (Ptr b (length P)) w =
       Returns (Ptr b (length P + length xs))
        (w\<lparr>heap := (heap w)(b \<mapsto> P @ map Live ys @ S), env := e'\<rparr>)"
      and "list_all2 (copy_result T) xs ys"
    then have "ReallocatePartial T (Ptr a (length P')) (length xs) (Ptr b (length P)) w =
            Returns ()
              (w\<lparr>heap := (heap w)(a \<mapsto> P' @ map Live xs @ S', b \<mapsto> P @ map Live ys @ S),
                 env := e'\<rparr>)" "relocated T xs ys"
      using False u idem by (simp_all add: ReallocatePartial_def relocated_def)
    then show ?thesis by blast
  next
    fix e'
    assume "uninitialized_copy_n T (Ptr a (length P')) (length xs) (Ptr b (length P)) w =
       Throws elem_exn (w\<lparr>env := e'\<rparr>)" and "throwing_copy_ctor T"
    then have "ReallocatePartial T (Ptr a (length P')) (length xs) (Ptr b (length P)) w =
            Throws elem_exn (w\<lparr>heap := (heap w)(a \<mapsto> P' @ map Live xs @ S'), env := e'\<rparr>)"
        "throwing_relocation T"
      using False u idem by (simp_all add: ReallocatePartial_def throwing_relocation_def)
    then show ?thesis by blast
  qed
qed

lemma RawMemory_Swap_eq: "RawMemory_Swap x y = (y, x)"
  by (cases x, cases y) (simp add: RawMemory_Swap_def)

lemma Vector_Swap_eq: "Vector_Swap x y = (y, x)"
  by (cases x, cases y) (simp add: Vector_Swap_def RawMemory_Swap_eq)

lemma ReallocateData_alt:
  "ReallocateData T new_data this w =
     and_then
       (on_world (ReallocatePartial T (GetAddress (v_data this)) (v_size this) (GetAddress new_data))
          this w)
       (\<lambda>_ (this1, w1).
          and_then (on_world (destroy_n T (GetAddress (v_data this1)) (v_size this1)) this1 w1)
            (\<lambda>_ (this2, w2). Returns (v_data this2) (this2\<lparr>v_data := new_data\<rparr>, w2)))"
  by (simp add: ReallocateData_def ReallocatePartial_def RawMemory_Swap_eq on_world_def)

lemma ReallocateData_Null:
  assumes "rm_buffer (v_data this) = Null" and "v_size this = 0"
  shows "ReallocateData T new_data this w = Returns (v_data this) (this\<lparr>v_data := new_data\<rparr>, w)"
  using assms
  by (simp add: ReallocateData_alt ReallocatePartial_def GetAddress_def on_world_def)

lemma ReallocateData_shape:
  assumes buf: "rm_buffer (v_data this) = Ptr a 0"
    and ha: "heap w a = Some (map Live xs @ R)"
    and sz: "v_size this = length xs"
    and nb: "rm_buffer new_data = Ptr b 0"
    and hb: "heap w b = Some (replicate (length xs) Raw @ S)"
    and ab: "a \<noteq> b"
  shows "(\<exists>ys e'. ReallocateData T new_data this w =
            Returns (v_data this)
              (this\<lparr>v_data := new_data\<rparr>,
               w\<lparr>heap := (heap w)(a \<mapsto> replicate (length xs) Raw @ R, b \<mapsto> map Live ys @ S),
                  env := e'\<rparr>) \<and>
            relocated T xs ys) \<or>
         (\<exists>rs e'. ReallocateData T new_data this w =
            Throws elem_exn (this, w\<lparr>heap := (heap w)(a \<mapsto> map Live rs @ R), env := e'\<rparr>) \<and>
            length rs = length xs \<and> (\<not> uses_move T \<longrightarrow> rs = xs) \<and> throwing_relocation T)"
proof -
  have ha': "heap w a = Some ([] @ map Live xs @ R)"
    and hb': "heap w b = Some ([] @ replicate (length xs) Raw @ S)"
    using ha hb by simp_all
  from ReallocatePartial_shape [OF ha' hb' ab, of T]
  show ?thesis
  proof (elim disjE exE conjE)
    fix ys rs e'
    let ?w1 = "w\<lparr>heap := (heap w)(a \<mapsto> [] @ map Live rs @ R, b \<mapsto> [] @ map Live ys @ S), env := e'\<rparr>"
    assume r: "ReallocatePartial T (Ptr a (length [])) (length xs) (Ptr b (length [])) w =
        Returns () ?w1"
      and rel: "relocated T xs ys" and len: "length rs = length xs"
    have h1: "heap ?w1 a = Some ([] @ map Live rs @ R)" using ab by simp
    from destroy_n_shape [OF h1, of T]
    have d: "destroy_n T (Ptr a 0) (length xs) ?w1 =
       Returns (Ptr a (length xs))
         (w\<lparr>heap := (heap w)(a \<mapsto> replicate (length xs) Raw @ R, b \<mapsto> map Live ys @ S),
            env := foldl (\<lambda>e x. dtor T x e) e' rs\<rparr>)"
      using ab len by (simp add: fun_upd_twist)
    have "ReallocateData T new_data this w =
            Returns (v_data this)
              (this\<lparr>v_data := new_data\<rparr>,
               w\<lparr>heap := (heap w)(a \<mapsto> replicate (length xs) Raw @ R, b \<mapsto> map Live ys @ S),
                  env := foldl (\<lambda>e x. dtor T x e) e' rs\<rparr>)"
      using r d by (simp add: ReallocateData_alt GetAddress_def buf nb sz on_world_def)
    then show ?thesis using rel by blast
  next
    fix rs e'
    assume r: "ReallocatePartial T (Ptr a (length [])) (length xs) (Ptr b (length [])) w =
        Throws elem_exn (w\<lparr>heap := (heap w)(a \<mapsto> [] @ map Live rs @ R), env := e'\<rparr>)"
      and rest: "length rs = length xs" "\<not> uses_move T \<longrightarrow> rs = xs" "throwing_relocation T"
    have "ReallocateData T new_data this w =
            Throws elem_exn (this, w\<lparr>heap := (heap w)(a \<mapsto> map Live rs @ R), env := e'\<rparr>)"
      using r by (simp add: ReallocateData_alt GetAddress_def buf nb sz on_world_def)
    then show ?thesis using rest by blast
  qed
qed

lemma size_t_mul_fits: "0 < s \<Longrightarrow> n * s < 2 ^ 64 \<Longrightarrow> size_t_mul n s div s = n"
  by (simp add: size_t_mul_def)

lemma RawMemory_ctor_eq:
  assumes "0 < sizeof_T w" and "c * sizeof_T w < 2 ^ 64"
  shows "RawMemory_ctor c w =
     (if c = 0 then Returns \<lparr>rm_buffer = Null, rm_capacity = 0\<rparr> w
      else if avail w < c then Throws bad_alloc w
      else Returns \<lparr>rm_buffer = Ptr (next_addr w) 0, rm_capacity = c\<rparr>
             (w\<lparr>heap := (heap w)(next_addr w \<mapsto> replicate c Raw),
                next_addr := Suc (next_addr w), avail := avail w - c\<rparr>))"
  by (simp add: RawMemory_ctor_def Allocate_def operator_new_def size_t_mul_fits [OF assms]
      Let_def)

lemma RawMemory_ctor_zero:
  "RawMemory_ctor 0 w = Returns \<lparr>rm_buffer = Null, rm_capacity = 0\<rparr> w"
  by (simp add: RawMemory_ctor_def Allocate_def)

lemma wf_world_fresh: "wf_world w \<Longrightarrow> heap w (next_addr w) = None"
  by (simp add: wf_world_def)

lemma wf_world_sizeof: "wf_world w \<Longrightarrow> 0 < sizeof_T w"
  by (simp add: wf_world_def)

lemma wf_world_fits_one: "wf_world w \<Longrightarrow> 1 * sizeof_T w < 2 ^ 64"
  by (simp add: wf_world_def)

lemma wf_world_fits_block:
  assumes "wf_world w" and "heap w a = Some B" and "n \<le> 2 * length B"
  shows "n * sizeof_T w < 2 ^ 64"
proof -
  have b: "length B * sizeof_T w < 2 ^ 63" using assms(1,2) by (auto simp add: wf_world_def)
  have "n * sizeof_T w \<le> 2 * (length B * sizeof_T w)"
    using assms(3) by (metis mult.assoc mult_le_mono1)
  also have "\<dots> < 2 * 2 ^ 63" using b by simp
  also have "2 * (2 :: nat) ^ 63 = 2 ^ 64" by simp
  finally show ?thesis .
qed

lemma wf_world_fits_grown:
  assumes "wf_world w" and "heap w a = Some B"
  shows "grown (length B) * sizeof_T w < 2 ^ 64"
proof (cases "length B = 0")
  case True
  then show ?thesis using wf_world_fits_one [OF assms(1)] by (simp add: grown_def)
next
  case False
  then have "grown (length B) \<le> 2 * length B" by (simp add: grown_def)
  from wf_world_fits_block [OF assms this] show ?thesis .
qed

lemma RawMemory_dtor_Ptr:
  "heap w a = Some B \<Longrightarrow> rm_buffer d = Ptr a 0 \<Longrightarrow>
   RawMemory_dtor d w = Returns () (w\<lparr>heap := (heap w)(a := None), avail := avail w + length B\<rparr>)"
  by (simp add: RawMemory_dtor_def Deallocate_def operator_delete_def)

lemma RawMemory_dtor_Null:
  "rm_buffer d = Null \<Longrightarrow> RawMemory_dtor d w = Returns () w"
  by (simp add: RawMemory_dtor_def Deallocate_def operator_delete_def)

lemma replicate_split: "n < c \<Longrightarrow> replicate c x = replicate n x @ x # replicate (c - Suc n) x"
  by (metis Suc_diff_Suc add_diff_inverse_nat less_imp_le_nat not_less replicate.simps(2) replicate_add)

lemma fresh_upd_none: "heap w b = None \<Longrightarrow> (heap w)(b := None) = heap w"
  by (rule fun_upd_idem)

lemma EmplaceBack_inplace:
  assumes "rm_buffer (v_data this) = Ptr a 0"
    and "heap w a = Some (map Live xs @ Raw # R)"
    and "v_size this = length xs"
    and "length xs < rm_capacity (v_data this)"
  shows "EmplaceBack T mk this w =
     (case mk (env w) of
        (None, e') \<Rightarrow> Throws elem_exn (this, w\<lparr>env := e'\<rparr>)
      | (Some x, e') \<Rightarrow>
          Returns (Ptr a (length xs))
            (this\<lparr>v_size := Suc (length xs)\<rparr>,
             w\<lparr>heap := (heap w)(a \<mapsto> map Live (xs @ [x]) @ R), env := e'\<rparr>))"
proof -
  have c: "construct_at (Ptr a (length xs)) mk w =
     (case mk (env w) of
        (None, e') \<Rightarrow> Throws elem_exn (w\<lparr>env := e'\<rparr>)
      | (Some x, e') \<Rightarrow>
          Returns () (w\<lparr>heap := (heap w)(a \<mapsto> map Live xs @ Live x # R), env := e'\<rparr>))"
    using construct_at_shape [OF assms(2), of mk] by simp
  show ?thesis
    using assms(1,3,4)
    by (simp add: EmplaceBack_def RawMemory_Capacity_def GetAddress_def on_world_def c
        RawMemory_index_def split: prod.splits option.splits)
qed

lemma EmplaceBack_Null:
  assumes "wf_world w"
    and "rm_buffer (v_data this) = Null"
    and "rm_capacity (v_data this) = 0"
    and "v_size this = 0"
  shows "EmplaceBack T mk this w =
     (if avail w < 1 then Throws bad_alloc (this, w)
      else case mk (env w) of
        (None, e') \<Rightarrow> Throws elem_exn (this, w\<lparr>next_addr := Suc (next_addr w), env := e'\<rparr>)
      | (Some x, e') \<Rightarrow>
          Returns (Ptr (next_addr w) 0)
            (this\<lparr>v_data := \<lparr>rm_buffer = Ptr (next_addr w) 0, rm_capacity = 1\<rparr>, v_size := 1\<rparr>,
             w\<lparr>heap := (heap w)(next_addr w \<mapsto> [Live x]), next_addr := Suc (next_addr w),
                avail := avail w - 1, env := e'\<rparr>))"
proof (cases "avail w < 1")
  case True
  then show ?thesis
    using assms(2-4) wf_world_sizeof [OF assms(1)] wf_world_fits_one [OF assms(1)]
    by (simp add: EmplaceBack_def RawMemory_Capacity_def RawMemory_ctor_eq on_world_def)
next
  case False
  note fits = wf_world_sizeof [OF assms(1)] wf_world_fits_one [OF assms(1)]
  let ?b = "next_addr w"
  let ?nd = "\<lparr>rm_buffer = Ptr ?b 0, rm_capacity = 1\<rparr>"
  let ?w1 = "w\<lparr>heap := (heap w)(?b \<mapsto> replicate 1 Raw), next_addr := Suc ?b, avail := avail w - 1\<rparr>"
  have fresh: "heap w ?b = None" using assms(1) by (simp add: wf_world_def)
  have h1: "heap ?w1 ?b = Some ([] @ Raw # [])" by simp
  note c = construct_at_shape [OF h1, of mk]
  obtain r e1 where m: "mk (env w) = (r, e1)" by (cases "mk (env w)")
  show ?thesis
  proof (cases r)
    case None
    have d: "RawMemory_dtor ?nd (?w1\<lparr>env := e1\<rparr>) =
        Returns () (w\<lparr>next_addr := Suc ?b, env := e1\<rparr>)"
      using False fresh
      by (subst RawMemory_dtor_Ptr [where a = ?b and B = "[Raw]"]) (simp_all add: fresh_upd_none)
    show ?thesis
      using assms(2-4) False c d fits
      by (simp add: EmplaceBack_def RawMemory_Capacity_def RawMemory_ctor_eq on_world_def
          GetAddress_def m None)
  next
    case (Some x)
    show ?thesis
      using assms(2-4) False c fits
      by (simp add: EmplaceBack_def RawMemory_Capacity_def RawMemory_ctor_eq on_world_def
          GetAddress_def m Some ReallocateData_Null RawMemory_dtor_Null RawMemory_index_def)
  qed
qed

lemma EmplaceBack_full_unfold:
  assumes "\<not> v_size this < rm_capacity (v_data this)"
    and "RawMemory_ctor (if v_size this = 0 then 1 else rm_capacity (v_data this) * 2) w =
           Returns nd w1"
  shows "EmplaceBack T mk this w =
       and_then
         (try_catch
            (and_then (on_world (construct_at (ptr_add (rm_buffer nd) (v_size this)) mk) this w1)
               (\<lambda>_ (this2, w2).
                  and_then (ReallocateData T nd this2 w2) (\<lambda>new_data1 (this3, w3).
                    on_world (RawMemory_dtor new_data1) this3 w3)))
            (\<lambda>e (this2, w2).
               and_then (on_world (RawMemory_dtor nd) this2 w2) (\<lambda>_ s3. Throws e s3)))
         (\<lambda>_ (this4, w4).
            let this5 = this4\<lparr>v_size := v_size this4 + 1\<rparr>
            in case RawMemory_index (v_data this5) (v_size this5 - 1) of
                 None \<Rightarrow> Undefined
               | Some p \<Rightarrow> Returns p (this5, w4))"
proof -
  have ow: "on_world (RawMemory_ctor (if v_size this = 0 then 1 else rm_capacity (v_data this) * 2))
       this w = Returns nd (this, w1)"
    by (simp add: on_world_def assms(2))
  show ?thesis
    unfolding EmplaceBack_def Let_def RawMemory_Capacity_def GetAddress_def
    using assms(1) by (simp add: ow)
qed

lemma on_world_Returns_this:
  "on_world m this w = Returns r (this', w') \<Longrightarrow> this' = this"
  by (simp add: on_world_def split: outcome.splits)

lemma ReallocateData_Returns_this:
  "ReallocateData T nd this w = Returns r (this', w') \<Longrightarrow> this' = this\<lparr>v_data := nd\<rparr>"
  by (auto simp add: ReallocateData_alt on_world_def and_then_def split: outcome.splits)

lemma EmplaceBack_full_alloc_Throws:
  assumes "\<not> v_size this < rm_capacity (v_data this)"
    and "RawMemory_ctor (if v_size this = 0 then 1 else rm_capacity (v_data this) * 2) w =
           Throws e w1"
  shows "EmplaceBack T mk this w = Throws e (this, w1)"
proof -
  have ow: "on_world (RawMemory_ctor (if v_size this = 0 then 1 else rm_capacity (v_data this) * 2))
       this w = Throws e (this, w1)"
    by (simp add: on_world_def assms(2))
  show ?thesis
    unfolding EmplaceBack_def Let_def RawMemory_Capacity_def GetAddress_def
    using assms(1) by (simp add: ow)
qed

lemma EmplaceBack_full_alloc_Undefined:
  assumes "\<not> v_size this < rm_capacity (v_data this)"
    and "RawMemory_ctor (if v_size this = 0 then 1 else rm_capacity (v_data this) * 2) w =
           Undefined"
  shows "EmplaceBack T mk this w = Undefined"
proof -
  have ow: "on_world (RawMemory_ctor (if v_size this = 0 then 1 else rm_capacity (v_data this) * 2))
       this w = Undefined"
    by (simp add: on_world_def assms(2))
  show ?thesis
    unfolding EmplaceBack_def Let_def RawMemory_Capacity_def GetAddress_def
    using assms(1) by (simp add: ow)
qed

lemma EmplaceBack_realloc:
  assumes wfw: "wf_world w"
    and buf: "rm_buffer (v_data this) = Ptr a 0"
    and ha: "heap w a = Some (map Live xs)"
    and sz: "v_size this = length xs"
    and cap: "rm_capacity (v_data this) = length xs"
  shows "(avail w < grown (length xs) \<and> EmplaceBack T mk this w = Throws bad_alloc (this, w)) \<or>
     (\<exists>e'. fst (mk (env w)) = None \<and> \<not> avail w < grown (length xs) \<and>
        EmplaceBack T mk this w =
          Throws elem_exn (this, w\<lparr>next_addr := Suc (next_addr w), env := e'\<rparr>)) \<or>
     (\<exists>x rs e'. fst (mk (env w)) = Some x \<and> \<not> avail w < grown (length xs) \<and>
        EmplaceBack T mk this w =
          Throws elem_exn
            (this, w\<lparr>heap := (heap w)(a \<mapsto> map Live rs), next_addr := Suc (next_addr w),
                     env := e'\<rparr>) \<and>
        length rs = length xs \<and> (\<not> uses_move T \<longrightarrow> rs = xs) \<and> throwing_relocation T) \<or>
     (\<exists>x ys e'. fst (mk (env w)) = Some x \<and> \<not> avail w < grown (length xs) \<and>
        EmplaceBack T mk this w =
          Returns (Ptr (next_addr w) (length xs))
            (this\<lparr>v_data := \<lparr>rm_buffer = Ptr (next_addr w) 0, rm_capacity = grown (length xs)\<rparr>,
                  v_size := Suc (length xs)\<rparr>,
             w\<lparr>heap := (heap w)(a := None,
                    next_addr w \<mapsto> map Live (ys @ [x]) @
                      replicate (grown (length xs) - Suc (length xs)) Raw),
                next_addr := Suc (next_addr w),
                avail := avail w - grown (length xs) + length xs, env := e'\<rparr>) \<and>
        relocated T xs ys)"
proof -
  have fits: "grown (length xs) * sizeof_T w < 2 ^ 64"
    using wf_world_fits_grown [OF wfw ha] by simp
  note rc = RawMemory_ctor_eq [OF wf_world_sizeof [OF wfw] fits]
  have g: "(if v_size this = 0 then 1 else rm_capacity (v_data this) * 2) = grown (length xs)"
    using sz cap by (simp add: grown_def)
  have c0: "grown (length xs) \<noteq> 0" by (simp add: grown_def)
  show ?thesis
proof (cases "avail w < grown (length xs)")
  case True
  then have thr: "RawMemory_ctor (if v_size this = 0 then 1 else rm_capacity (v_data this) * 2) w =
      Throws bad_alloc w"
    using c0 by (simp add: g rc)
  have full: "\<not> v_size this < rm_capacity (v_data this)" using sz cap by simp
  have "EmplaceBack T mk this w = Throws bad_alloc (this, w)"
    by (rule EmplaceBack_full_alloc_Throws [OF full thr])
  with True show ?thesis by blast
next
  case False
  let ?n = "length xs"
  let ?c = "grown ?n"
  let ?b = "next_addr w"
  let ?nd = "\<lparr>rm_buffer = Ptr ?b 0, rm_capacity = ?c\<rparr>"
  let ?w1 = "w\<lparr>heap := (heap w)(?b \<mapsto> replicate ?c Raw), next_addr := Suc ?b, avail := avail w - ?c\<rparr>"
  have lt: "?n < ?c" by (simp add: grown_def)
  have fresh: "heap w ?b = None" using wfw by (simp add: wf_world_def)
  have ab: "a \<noteq> ?b" using ha fresh by auto
  have alloc: "RawMemory_ctor (if v_size this = 0 then 1 else rm_capacity (v_data this) * 2) w =
      Returns ?nd ?w1"
    using False c0 by (simp add: g rc)
  have h1: "heap ?w1 ?b = Some (replicate ?n Raw @ Raw # replicate (?c - Suc ?n) Raw)"
    using replicate_split [OF lt, of Raw] by simp
  have c: "construct_at (Ptr ?b ?n) mk ?w1 =
     (case mk (env w) of
        (None, e') \<Rightarrow> Throws elem_exn (?w1\<lparr>env := e'\<rparr>)
      | (Some x, e') \<Rightarrow>
          Returns () (?w1\<lparr>heap := (heap ?w1)(?b \<mapsto> replicate ?n Raw @ Live x #
                              replicate (?c - Suc ?n) Raw), env := e'\<rparr>))"
    using construct_at_shape [OF h1, of mk] by simp
  have unfold: "EmplaceBack T mk this w =
       and_then
         (try_catch
            (and_then (on_world (construct_at (Ptr ?b ?n) mk) this ?w1)
               (\<lambda>_ (this2, w2).
                  and_then (ReallocateData T ?nd this2 w2) (\<lambda>new_data1 (this3, w3).
                    on_world (RawMemory_dtor new_data1) this3 w3)))
            (\<lambda>e (this2, w2).
               and_then (on_world (RawMemory_dtor ?nd) this2 w2) (\<lambda>_ s3. Throws e s3)))
         (\<lambda>_ (this4, w4).
            let this5 = this4\<lparr>v_size := v_size this4 + 1\<rparr>
            in case RawMemory_index (v_data this5) (v_size this5 - 1) of
                 None \<Rightarrow> Undefined
               | Some p \<Rightarrow> Returns p (this5, w4))"
    using EmplaceBack_full_unfold [OF _ alloc, of T mk] sz cap by simp
  obtain r e1 where m: "mk (env w) = (r, e1)" by (cases "mk (env w)")
  show ?thesis
  proof (cases r)
    case None
    have d: "RawMemory_dtor ?nd (?w1\<lparr>env := e1\<rparr>) =
        Returns () (w\<lparr>next_addr := Suc ?b, env := e1\<rparr>)"
      using False fresh
      by (subst RawMemory_dtor_Ptr [where a = ?b and B = "replicate ?c Raw"])
        (simp_all add: fresh_upd_none)
    have "EmplaceBack T mk this w = Throws elem_exn (this, w\<lparr>next_addr := Suc ?b, env := e1\<rparr>)"
      using d by (simp add: unfold c m None on_world_def)
    moreover have "fst (mk (env w)) = None" using m None by simp
    ultimately show ?thesis using False by blast
  next
    case (Some x)
    let ?S = "Live x # replicate (?c - Suc ?n) Raw"
    let ?w2 = "?w1\<lparr>heap := (heap ?w1)(?b \<mapsto> replicate ?n Raw @ ?S), env := e1\<rparr>"
    have c2: "construct_at (Ptr ?b ?n) mk ?w1 = Returns () ?w2"
      by (simp add: c m Some)
    have ha2: "heap ?w2 a = Some (map Live xs @ [])" using ha ab by simp
    have hb2: "heap ?w2 ?b = Some (replicate ?n Raw @ ?S)" by simp
    have mx: "fst (mk (env w)) = Some x" using m Some by simp
    have nb: "rm_buffer ?nd = Ptr ?b 0" by simp
    from ReallocateData_shape [OF buf ha2 sz nb hb2 ab, of T]
    show ?thesis
    proof (elim disjE exE conjE)
      fix ys e'
      let ?w3 = "?w2\<lparr>heap := (heap ?w2)(a \<mapsto> replicate ?n Raw @ [], ?b \<mapsto> map Live ys @ ?S),
                    env := e'\<rparr>"
      assume r: "ReallocateData T ?nd this ?w2 = Returns (v_data this) (this\<lparr>v_data := ?nd\<rparr>, ?w3)"
        and rel: "relocated T xs ys"
      have h3: "heap ?w3 a = Some (replicate ?n Raw)" using ab by simp
      have d: "RawMemory_dtor (v_data this) ?w3 =
          Returns () (?w3\<lparr>heap := (heap ?w3)(a := None), avail := avail ?w3 + ?n\<rparr>)"
        using RawMemory_dtor_Ptr [OF h3 buf] by simp
      have "EmplaceBack T mk this w =
          Returns (Ptr ?b ?n)
            (this\<lparr>v_data := ?nd, v_size := Suc ?n\<rparr>,
             w\<lparr>heap := (heap w)(a := None,
                    ?b \<mapsto> map Live (ys @ [x]) @ replicate (?c - Suc ?n) Raw),
                next_addr := Suc ?b, avail := avail w - ?c + ?n, env := e'\<rparr>)"
        using r d ab lt
        by (simp add: unfold c2 on_world_def sz RawMemory_index_def fun_upd_twist)
      then show ?thesis using mx rel False by blast
    next
      fix rs e'
      let ?w3 = "?w2\<lparr>heap := (heap ?w2)(a \<mapsto> map Live rs @ []), env := e'\<rparr>"
      assume r: "ReallocateData T ?nd this ?w2 = Throws elem_exn (this, ?w3)"
        and rest: "length rs = length xs" "\<not> uses_move T \<longrightarrow> rs = xs" "throwing_relocation T"
      have h3: "heap ?w3 ?b = Some (replicate ?n Raw @ ?S)" using ab by simp
      have len: "length (replicate ?n Raw @ ?S) = ?c" using lt by simp
      have d: "RawMemory_dtor ?nd ?w3 =
          Returns () (w\<lparr>heap := (heap w)(a \<mapsto> map Live rs), next_addr := Suc ?b, env := e'\<rparr>)"
        using False fresh ab len
        by (subst RawMemory_dtor_Ptr [OF h3]) (simp_all add: fun_upd_twist fresh_upd_none)
      have "EmplaceBack T mk this w =
          Throws elem_exn
            (this, w\<lparr>heap := (heap w)(a \<mapsto> map Live rs), next_addr := Suc ?b, env := e'\<rparr>)"
        using r d by (simp add: unfold c2 on_world_def)
      then show ?thesis using mx rest False by blast
    qed
  qed
qed
qed

lemma EmplaceBack_fields:
  assumes "EmplaceBack T mk this w = Returns p (this', w')"
  shows "v_size this' = Suc (v_size this) \<and>
         rm_capacity (v_data this') =
           (if v_size this < rm_capacity (v_data this) then rm_capacity (v_data this)
            else if v_size this = 0 then 1 else rm_capacity (v_data this) * 2)"
proof (cases "v_size this < rm_capacity (v_data this)")
  case True
  then show ?thesis
    using assms
    by (auto simp add: EmplaceBack_def RawMemory_Capacity_def on_world_def and_then_def Let_def
        split: outcome.splits option.splits)
next
  case False
  let ?c = "if v_size this = 0 then 1 else rm_capacity (v_data this) * 2"
  show ?thesis
  proof (cases "RawMemory_ctor ?c w")
    case (Returns nd w1)
    have nd: "rm_capacity nd = ?c"
      using Returns
      by (auto simp add: RawMemory_ctor_def and_then_def split: outcome.splits)
    show ?thesis
      using assms False nd
      unfolding EmplaceBack_full_unfold [OF False Returns]
      by (auto simp add: on_world_def and_then_def try_catch_def Let_def
          split: outcome.splits option.splits dest!: ReallocateData_Returns_this)
  next
    case (Throws e w1)
    then show ?thesis
      using assms EmplaceBack_full_alloc_Throws [OF False Throws, of T mk] by simp
  next
    case Undefined
    then show ?thesis
      using assms EmplaceBack_full_alloc_Undefined [OF False Undefined, of T mk] by simp
  qed
qed

lemma cap_seq_ge: "k \<le> cap_seq k"
  by (induction k) auto

lemma cap_seq_step:
  "cap_seq (Suc k) = (if k < cap_seq k then cap_seq k else if k = 0 then 1 else cap_seq k * 2)"
  using cap_seq_ge [of k] by (auto simp add: max_def)

lemma cap_seq_pow2: "0 < k \<Longrightarrow> \<exists>m. cap_seq k = 2 ^ m \<and> k \<le> 2 ^ m \<and> 2 ^ m < 2 * k"
proof (induction k)
  case 0
  then show ?case by simp
next
  case (Suc k)
  show ?case
  proof (cases "k = 0")
    case True
    then show ?thesis by (auto intro: exI [of _ 0])
  next
    case False
    then obtain m where m: "cap_seq k = 2 ^ m" "k \<le> 2 ^ m" "2 ^ m < 2 * k"
      using Suc.IH by auto
    show ?thesis
    proof (cases "k < cap_seq k")
      case True
      then show ?thesis using m by (auto intro!: exI [of _ m])
    next
      case False
      then have "k = 2 ^ m" using m by simp
      moreover have "cap_seq (Suc k) = 2 * cap_seq k" using False \<open>k \<noteq> 0\<close> m by auto
      ultimately show ?thesis using m \<open>k \<noteq> 0\<close> by (auto intro!: exI [of _ "Suc m"])
    qed
  qed
qed

lemma appends_observed:
  assumes "appends T mks this w = Returns obs s"
    and "rm_capacity (v_data this) = cap_seq (v_size this)"
  shows "obs = map (\<lambda>k. (k, cap_seq k)) [Suc (v_size this)..<Suc (v_size this + length mks)]"
  using assms
proof (induction mks arbitrary: this w obs s)
  case Nil
  then show ?case by simp
next
  case (Cons mk mks)
  from Cons.prems(1) obtain p this1 w1 where
    e: "EmplaceBack T mk this w = Returns p (this1, w1)"
    by (cases "EmplaceBack T mk this w") (auto simp add: and_then_def)
  from Cons.prems(1) e obtain obs1 where
    a: "appends T mks this1 w1 = Returns obs1 s"
    and o: "obs = (Size this1, Capacity this1) # obs1"
    by (cases "appends T mks this1 w1") auto
  from EmplaceBack_fields [OF e] Cons.prems(2)
  have f: "v_size this1 = Suc (v_size this)" "rm_capacity (v_data this1) = cap_seq (v_size this1)"
    by (simp_all add: cap_seq_step del: cap_seq.simps(2))
  let ?n = "v_size this"
  from Cons.IH [OF a f(2)]
  have "obs1 = map (\<lambda>k. (k, cap_seq k)) [Suc (Suc ?n)..<Suc (Suc ?n + length mks)]"
    by (simp only: f(1))
  moreover have "Size this1 = Suc ?n" "Capacity this1 = cap_seq (Suc ?n)"
    using f by (simp_all only: Size_def Capacity_def RawMemory_Capacity_def)
  moreover have "[Suc ?n..<Suc (?n + length (mk # mks))] =
      Suc ?n # [Suc (Suc ?n)..<Suc (Suc ?n + length mks)]"
    by (simp add: upt_conv_Cons del: upt_Suc)
  ultimately show ?case
    using o by (simp only: list.map)
qed

lemma live_values_map_Live [simp]: "live_values (map Live xs) = xs"
  by (induction xs) simp_all

lemma elems_shape:
  "rm_buffer (v_data v) = Ptr a 0 \<Longrightarrow> heap w a = Some (map Live xs @ R) \<Longrightarrow> v_size v = length xs \<Longrightarrow>
   elems v w = xs"
  by (simp add: elems_def)

lemma elems_Null: "rm_buffer (v_data v) = Null \<Longrightarrow> elems v w = []"
  by (simp add: elems_def)

lemma elems_heap_cong: "heap w' = heap w \<Longrightarrow> elems v w' = elems v w"
  by (simp add: elems_def split: ptr.splits)

lemma wf_vec_heap_cong: "heap w' = heap w \<Longrightarrow> wf_vec v w' = wf_vec v w"
  using elems_heap_cong [of w' w v] by (simp add: wf_vec_def split: ptr.splits)

lemma wf_vec_PtrD:
  assumes "wf_vec v w" and "rm_buffer (v_data v) = Ptr a i"
  shows "i = 0" and "v_size v \<le> rm_capacity (v_data v)" and "length (elems v w) = v_size v"
    and "heap w a = Some (map Live (elems v w) @ replicate (rm_capacity (v_data v) - v_size v) Raw)"
  using assms by (simp_all add: wf_vec_def)

lemma wf_vec_NullD:
  assumes "wf_vec v w" and "rm_buffer (v_data v) = Null"
  shows "rm_capacity (v_data v) = 0" and "v_size v = 0"
  using assms by (simp_all add: wf_vec_def)

lemma wf_vecI:
  assumes "rm_buffer (v_data v) = Ptr a 0" and "heap w a = Some (map Live xs @ replicate k Raw)"
    and "v_size v = length xs" and "rm_capacity (v_data v) = length xs + k"
  shows "wf_vec v w"
  using assms elems_shape [OF assms(1-3)] by (simp add: wf_vec_def)


lemma regular_move_assign:
  assumes "regular T" and "list_all2 (move_assign_result T) xs ys"
  shows "ys = xs"
  using assms(2,1) by (induction rule: list_all2_induct) (auto simp add: regular_def)

lemma regular_copy_assign:
  assumes "regular T" and "list_all2 (copy_assign_result T) xs ys"
  shows "ys = xs"
  using assms(2,1) by (induction rule: list_all2_induct) (auto simp add: regular_def)

lemma regular_copy:
  assumes "regular T" and "list_all2 (copy_result T) xs ys"
  shows "ys = xs"
  using assms(2,1) by (induction rule: list_all2_induct) (auto simp add: regular_def)

lemma regular_move:
  assumes "regular T" and "list_all2 (move_result T) xs ys"
  shows "ys = xs"
  using assms(2,1) by (induction rule: list_all2_induct) (auto simp add: regular_def)

lemma regular_relocated: "regular T \<Longrightarrow> relocated T xs ys \<Longrightarrow> ys = xs"
  by (auto simp add: relocated_def regular_move regular_copy split: if_splits)

lemma wf_world_of: "length xs \<le> 1000 \<Longrightarrow> c \<le> 1000 \<Longrightarrow> wf_world (world_of xs c e)"
  by (auto simp add: wf_world_def world_of_def fun_upd_apply split: if_splits)

lemma elems_of: "elems (vec_of xs c) (world_of xs c e) = xs"
  by (rule elems_shape [where a = 0 and R = "replicate (c - length xs) Raw"])
    (simp_all add: vec_of_def world_of_def)

lemma wf_vec_of: "length xs \<le> c \<Longrightarrow> wf_vec (vec_of xs c) (world_of xs c e)"
  by (rule wf_vecI [where a = 0 and xs = xs and k = "c - length xs"])
    (simp_all add: vec_of_def world_of_def)

lemma regular_test_type: "regular (test_type nm cc faulty)"
  by (auto simp add: regular_def copy_result_def move_result_def copy_assign_result_def
      move_assign_result_def test_type_def counted_def split: if_splits)

lemma plain_type_nothrow:
  "\<not> throwing_value_init plain_type" "\<not> throwing_copy_ctor plain_type"
  "\<not> throwing_move_ctor plain_type" "\<not> throwing_copy_assign plain_type"
  "\<not> throwing_move_assign plain_type" "\<not> throwing_relocation plain_type"
  by (simp_all add: throwing_value_init_def throwing_copy_ctor_def throwing_move_ctor_def
      throwing_copy_assign_def throwing_move_assign_def throwing_relocation_def plain_type_def
      test_type_def counted_def)

lemma Reserve_noop:
  "n \<le> rm_capacity (v_data this) \<Longrightarrow> Reserve T n this w = Returns () (this, w)"
  by (simp add: Reserve_def RawMemory_Capacity_def)

lemma Reserve_grow_unfold:
  assumes "rm_capacity (v_data this) < n" and "RawMemory_ctor n w = Returns nd w1"
  shows "Reserve T n this w =
     try_catch
       (and_then (ReallocateData T nd this w1) (\<lambda>new_data1 (this2, w2).
          on_world (RawMemory_dtor new_data1) this2 w2))
       (\<lambda>e (this2, w2). and_then (on_world (RawMemory_dtor nd) this2 w2) (\<lambda>_ s. Throws e s))"
proof -
  have ow: "on_world (RawMemory_ctor n) this w = Returns nd (this, w1)"
    by (simp add: on_world_def assms(2))
  show ?thesis
    unfolding Reserve_def RawMemory_Capacity_def using assms(1) by (simp add: ow)
qed

lemma Reserve_bad_alloc:
  assumes "rm_capacity (v_data this) < n" and "avail w < n"
    and "0 < sizeof_T w" and "n * sizeof_T w < 2 ^ 64"
  shows "Reserve T n this w = Throws bad_alloc (this, w)"
proof -
  have "RawMemory_ctor n w = Throws bad_alloc w"
    using assms(1,2) by (simp add: RawMemory_ctor_eq [OF assms(3,4)])
  then have ow: "on_world (RawMemory_ctor n) this w = Throws bad_alloc (this, w)"
    by (simp add: on_world_def)
  show ?thesis
    unfolding Reserve_def RawMemory_Capacity_def using assms(1) by (simp add: ow)
qed

lemma Reserve_Null:
  assumes "rm_buffer (v_data this) = Null" and "v_size this = 0"
    and "rm_capacity (v_data this) < n" and "\<not> avail w < n"
    and "0 < sizeof_T w" and "n * sizeof_T w < 2 ^ 64"
  shows "Reserve T n this w =
     Returns ()
       (this\<lparr>v_data := \<lparr>rm_buffer = Ptr (next_addr w) 0, rm_capacity = n\<rparr>\<rparr>,
        w\<lparr>heap := (heap w)(next_addr w \<mapsto> replicate n Raw), next_addr := Suc (next_addr w),
           avail := avail w - n\<rparr>)"
proof -
  have n0: "n \<noteq> 0" using assms(3) by simp
  have alloc: "RawMemory_ctor n w =
      Returns \<lparr>rm_buffer = Ptr (next_addr w) 0, rm_capacity = n\<rparr>
        (w\<lparr>heap := (heap w)(next_addr w \<mapsto> replicate n Raw), next_addr := Suc (next_addr w),
           avail := avail w - n\<rparr>)"
    using assms(4) n0 by (simp add: RawMemory_ctor_eq [OF assms(5,6)])
  show ?thesis
    by (simp add: Reserve_grow_unfold [OF assms(3) alloc] ReallocateData_Null [OF assms(1,2)]
        on_world_def RawMemory_dtor_Null assms(1))
qed

lemma Reserve_Ptr:
  assumes wfw: "wf_world w"
    and buf: "rm_buffer (v_data this) = Ptr a 0"
    and ha: "heap w a = Some (map Live xs @ R)"
    and sz: "v_size this = length xs"
    and gt: "rm_capacity (v_data this) < n"
    and le: "length xs \<le> n"
    and av: "\<not> avail w < n"
    and fits: "n * sizeof_T w < 2 ^ 64"
  shows "(\<exists>rs e'. Reserve T n this w =
            Throws elem_exn
              (this, w\<lparr>heap := (heap w)(a \<mapsto> map Live rs @ R), next_addr := Suc (next_addr w),
                       env := e'\<rparr>) \<and>
            length rs = length xs \<and> (\<not> uses_move T \<longrightarrow> rs = xs) \<and> throwing_relocation T) \<or>
         (\<exists>ys e'. Reserve T n this w =
            Returns ()
              (this\<lparr>v_data := \<lparr>rm_buffer = Ptr (next_addr w) 0, rm_capacity = n\<rparr>\<rparr>,
               w\<lparr>heap := (heap w)(a := None,
                      next_addr w \<mapsto> map Live ys @ replicate (n - length xs) Raw),
                  next_addr := Suc (next_addr w),
                  avail := avail w - n + (length xs + length R), env := e'\<rparr>) \<and>
            relocated T xs ys)"
proof -
  let ?b = "next_addr w"
  let ?nd = "\<lparr>rm_buffer = Ptr ?b 0, rm_capacity = n\<rparr>"
  let ?w1 = "w\<lparr>heap := (heap w)(?b \<mapsto> replicate n Raw), next_addr := Suc ?b, avail := avail w - n\<rparr>"
  have n0: "n \<noteq> 0" using gt by simp
  have fresh: "heap w ?b = None" using wfw by (simp add: wf_world_def)
  have ab: "a \<noteq> ?b" using ha fresh by auto
  have alloc: "RawMemory_ctor n w = Returns ?nd ?w1"
    using av n0 by (simp add: RawMemory_ctor_eq [OF wf_world_sizeof [OF wfw] fits])
  note unfold = Reserve_grow_unfold [OF gt alloc, of T]
  have ha1: "heap ?w1 a = Some (map Live xs @ R)" using ha ab by simp
  have "replicate n Raw = replicate (length xs) Raw @ replicate (n - length xs) (Raw :: 'a slot)"
    using le by (simp add: replicate_add [symmetric])
  then have hb1: "heap ?w1 ?b = Some (replicate (length xs) Raw @ replicate (n - length xs) Raw)"
    by simp
  have nb: "rm_buffer ?nd = Ptr ?b 0" by simp
  from ReallocateData_shape [OF buf ha1 sz nb hb1 ab, of T]
  show ?thesis
  proof (elim disjE exE conjE, goal_cases)
    case (1 ys e')
    let ?w3 = "?w1\<lparr>heap := (heap ?w1)(a \<mapsto> replicate (length xs) Raw @ R,
                    ?b \<mapsto> map Live ys @ replicate (n - length xs) Raw), env := e'\<rparr>"
    have h3: "heap ?w3 a = Some (replicate (length xs) Raw @ R)" using ab by simp
    have d: "RawMemory_dtor (v_data this) ?w3 =
        Returns () (?w3\<lparr>heap := (heap ?w3)(a := None),
                       avail := avail ?w3 + length (replicate (length xs) Raw @ R)\<rparr>)"
      using RawMemory_dtor_Ptr [OF h3 buf] by simp
    have "Reserve T n this w =
        Returns ()
          (this\<lparr>v_data := ?nd\<rparr>,
           w\<lparr>heap := (heap w)(a := None, ?b \<mapsto> map Live ys @ replicate (n - length xs) Raw),
              next_addr := Suc ?b, avail := avail w - n + (length xs + length R), env := e'\<rparr>)"
      using 1(1) d ab by (simp add: unfold on_world_def fun_upd_twist)
    then show ?case using 1(2) by blast
  next
    case (2 rs e')
    let ?w3 = "?w1\<lparr>heap := (heap ?w1)(a \<mapsto> map Live rs @ R), env := e'\<rparr>"
    have h3: "heap ?w3 ?b = Some (replicate n Raw)" using ab by simp
    have d: "RawMemory_dtor ?nd ?w3 =
        Returns () (w\<lparr>heap := (heap w)(a \<mapsto> map Live rs @ R), next_addr := Suc ?b, env := e'\<rparr>)"
      using av fresh ab
      by (subst RawMemory_dtor_Ptr [OF h3]) (simp_all add: fun_upd_twist fresh_upd_none)
    have "Reserve T n this w =
        Throws elem_exn
          (this, w\<lparr>heap := (heap w)(a \<mapsto> map Live rs @ R), next_addr := Suc ?b, env := e'\<rparr>)"
      using 2(1) d by (simp add: unfold on_world_def)
    then show ?case using 2(2-4) by blast
  qed
qed

lemma value_construct_tail:
  assumes "heap w a = Some (map Live xs @ replicate r Raw)" and "m \<le> r"
  shows "(\<exists>ds e'. uninitialized_value_construct_n T (Ptr a (length xs)) m w =
            Returns (Ptr a (length xs + m))
              (w\<lparr>heap := (heap w)(a \<mapsto> map Live (xs @ ds) @ replicate (r - m) Raw), env := e'\<rparr>) \<and>
            length ds = m \<and> list_all (value_init_result T) ds) \<or>
         (\<exists>e'. uninitialized_value_construct_n T (Ptr a (length xs)) m w =
            Throws elem_exn (w\<lparr>env := e'\<rparr>) \<and> throwing_value_init T)"
proof -
  have "replicate r Raw = replicate m Raw @ replicate (r - m) (Raw :: 'a slot)"
    using assms(2) by (simp add: replicate_add [symmetric])
  then have h: "heap w a = Some (map Live xs @ replicate m Raw @ replicate (r - m) Raw)"
    using assms(1) by simp
  from uninitialized_value_construct_n_shape [OF h, of T] show ?thesis by simp
qed


lemma Resize_shrink:
  assumes buf: "rm_buffer (v_data this) = Ptr a 0"
    and ha: "heap w a = Some (map Live xs @ R)"
    and sz: "v_size this = length xs"
    and n: "n < length xs"
  shows "Resize T n this w =
     Returns ()
       (this\<lparr>v_size := n\<rparr>,
        w\<lparr>heap := (heap w)(a \<mapsto> map Live (take n xs) @ replicate (length xs - n) Raw @ R),
           env := foldl (\<lambda>e x. dtor T x e) (env w) (drop n xs)\<rparr>)"
proof -
  have "map Live xs = map Live (take n xs) @ map Live (drop n xs)"
    by (simp add: map_append [symmetric] del: map_append)
  then have h: "heap w a = Some (map Live (take n xs) @ map Live (drop n xs) @ R)"
    using ha by simp
  have d: "destroy_n T (Ptr a n) (length xs - n) w =
      Returns (Ptr a (n + (length xs - n)))
        (w\<lparr>heap := (heap w)(a \<mapsto> map Live (take n xs) @ replicate (length xs - n) Raw @ R),
           env := foldl (\<lambda>e x. dtor T x e) (env w) (drop n xs)\<rparr>)"
    using destroy_n_shape [OF h, of T] n by simp
  show ?thesis
    using n d
    by (simp add: Resize_def Vector_begin_def GetAddress_def buf sz on_world_def)
qed

lemma Resize_grow_Reserve_Throws:
  assumes "v_size this < n" and "Reserve T n this w = Throws e s"
  shows "Resize T n this w = Throws e s"
  using assms by (simp add: Resize_def)

lemma Resize_grow_tail:
  assumes lt: "v_size this < n"
    and res: "Reserve T n this w = Returns () (this1, w1)"
    and sz1: "v_size this1 = v_size this"
    and buf: "rm_buffer (v_data this1) = Ptr a 0"
    and ha: "heap w1 a = Some (map Live xs @ replicate r Raw)"
    and sz: "v_size this = length xs"
    and cap: "rm_capacity (v_data this1) = length xs + r"
    and r: "n \<le> length xs + r"
  shows "(\<exists>e s. Resize T n this w = Throws e s \<and> throwing_value_init T) \<or>
         (\<exists>w' ds. Resize T n this w = Returns () (this1\<lparr>v_size := n\<rparr>, w') \<and>
            wf_vec (this1\<lparr>v_size := n\<rparr>) w' \<and> elems (this1\<lparr>v_size := n\<rparr>) w' = xs @ ds \<and>
            length ds = n - length xs \<and> list_all (value_init_result T) ds)"
proof -
  let ?m = "n - length xs"
  have m: "?m \<le> r" using r by simp
  have unfold: "Resize T n this w =
      and_then
        (discard (on_world (uninitialized_value_construct_n T (Ptr a (length xs)) ?m) this1 w1))
        (\<lambda>_ (this2, w2). Returns () (this2\<lparr>v_size := n\<rparr>, w2))"
    using lt res sz1 sz
    by (simp add: Resize_def Vector_end_def GetAddress_def buf)
  from value_construct_tail [OF ha m, of T]
  show ?thesis
  proof (elim disjE exE conjE, goal_cases)
    case (1 ds e')
    let ?w' = "w1\<lparr>heap := (heap w1)(a \<mapsto> map Live (xs @ ds) @ replicate (r - ?m) Raw), env := e'\<rparr>"
    let ?this' = "this1\<lparr>v_size := n\<rparr>"
    have e: "Resize T n this w = Returns () (?this', ?w')"
      using 1(1) by (simp add: unfold on_world_def)
    have hw: "heap ?w' a = Some (map Live (xs @ ds) @ replicate (r - ?m) Raw)" by simp
    have len: "length (xs @ ds) = n" using 1(2) lt sz by simp
    have "wf_vec ?this' ?w'"
      using len cap m 1(2) by (intro wf_vecI [OF _ hw]) (simp_all add: buf)
    moreover have "elems ?this' ?w' = xs @ ds"
      using len by (intro elems_shape [OF _ hw]) (simp_all add: buf)
    ultimately show ?case using e 1(2,3) by blast
  next
    case (2 e')
    have "Resize T n this w = Throws elem_exn (this1, w1\<lparr>env := e'\<rparr>)"
      using 2(1) by (simp add: unfold on_world_def)
    then show ?case using 2(2) by blast
  qed
qed

lemma list_all_const: "list_all (\<lambda>y. y = c) ds \<Longrightarrow> ds = replicate (length ds) c"
  by (induction ds) simp_all

lemma plain_type_value_init: "value_init_result plain_type y \<Longrightarrow> y = 0"
  by (simp add: value_init_result_def plain_type_def test_type_def counted_def)

lemma upd_fresh_after:
  "heap w b = None \<Longrightarrow> a \<noteq> b \<Longrightarrow> (heap w)(a \<mapsto> A, b := None) = (heap w)(a \<mapsto> A)"
  by (rule ext) (simp add: fun_upd_def)

lemma Emplace_realloc_unfold:
  assumes ne: "pos \<noteq> Vector_end this"
    and full: "\<not> v_size this < rm_capacity (v_data this)"
    and alloc: "RawMemory_ctor (if v_size this = 0 then 1 else rm_capacity (v_data this) * 2) w =
           Returns nd w1"
    and pd: "ptr_diff pos (Vector_begin this) = Some k"
  shows "Emplace T pos mk this w =
     try_catch
       (and_then (on_world (construct_at (ptr_add (rm_buffer nd) k) mk) this w1)
          (\<lambda>_ (this2, w2).
             and_then
               (try_catch
                  (on_world (ReallocatePartial T (Vector_begin this2) k (rm_buffer nd)) this2 w2)
                  (\<lambda>e (this3, w3).
                     case RawMemory_index nd k of
                       None \<Rightarrow> Undefined
                     | Some p \<Rightarrow>
                         and_then (on_world (destroy_at T p) this3 w3) (\<lambda>_ s. Throws e s)))
               (\<lambda>_ (this3, w3).
             and_then
               (try_catch
                  (on_world
                     (ReallocatePartial T (ptr_add (Vector_begin this3) k) (v_size this3 - k)
                        (ptr_add (ptr_add (rm_buffer nd) k) 1)) this3 w3)
                  (\<lambda>e (this4, w4).
                     and_then (on_world (destroy_n T (rm_buffer nd) (k + 1)) this4 w4)
                       (\<lambda>_ s. Throws e s)))
               (\<lambda>_ (this4, w4).
             and_then (on_world (destroy_n T (Vector_begin this4) (v_size this4)) this4 w4)
               (\<lambda>_ (this5, w5).
                  and_then
                    (on_world (RawMemory_dtor (v_data this5))
                       (this5\<lparr>v_data := nd, v_size := v_size this5 + 1\<rparr>) w5)
                    (\<lambda>_ s. Returns
                       (ptr_add (Vector_begin (this5\<lparr>v_data := nd, v_size := v_size this5 + 1\<rparr>)) k)
                       s))))))
       (\<lambda>e (this2, w2). and_then (on_world (RawMemory_dtor nd) this2 w2) (\<lambda>_ s. Throws e s))"
proof -
  have ow: "on_world (RawMemory_ctor (if v_size this = 0 then 1 else rm_capacity (v_data this) * 2))
       this w = Returns nd (this, w1)"
    by (simp add: on_world_def alloc)
  show ?thesis
    unfolding Emplace_def Let_def RawMemory_Capacity_def GetAddress_def
    using ne full by (simp add: ow pd RawMemory_Swap_eq)
qed

lemma Emplace_realloc:
  assumes wfw: "wf_world w"
    and buf: "rm_buffer (v_data this) = Ptr a 0"
    and ha: "heap w a = Some (map Live xs)"
    and sz: "v_size this = length xs"
    and cap: "rm_capacity (v_data this) = length xs"
    and k: "k < length xs"
  shows
    "(avail w < grown (length xs) \<and> Emplace T (Ptr a k) mk this w = Throws bad_alloc (this, w)) \<or>
     (\<exists>e1. mk (env w) = (None, e1) \<and> \<not> avail w < grown (length xs) \<and>
        Emplace T (Ptr a k) mk this w =
          Throws elem_exn (this, w\<lparr>next_addr := Suc (next_addr w), env := e1\<rparr>)) \<or>
     (\<exists>x e1 rs w3. mk (env w) = (Some x, e1) \<and> \<not> avail w < grown (length xs) \<and>
        ReallocatePartial T (Ptr a 0) k (Ptr (next_addr w) 0)
          (new_block_with w (grown (length xs)) k x e1) = Throws elem_exn w3 \<and>
        Emplace T (Ptr a k) mk this w =
          Throws elem_exn
            (this, w\<lparr>heap := (heap w)(a \<mapsto> map Live (rs @ drop k xs)),
                     next_addr := Suc (next_addr w), env := dtor T x (env w3)\<rparr>) \<and>
        length rs = k \<and> (\<not> uses_move T \<longrightarrow> rs = take k xs) \<and> throwing_relocation T) \<or>
     (\<exists>x e1 rs1 rs2 ys1 w3 w4. mk (env w) = (Some x, e1) \<and> \<not> avail w < grown (length xs) \<and>
        ReallocatePartial T (Ptr a 0) k (Ptr (next_addr w) 0)
          (new_block_with w (grown (length xs)) k x e1) = Returns () w3 \<and>
        ReallocatePartial T (Ptr a k) (length xs - k) (Ptr (next_addr w) (Suc k)) w3 =
          Throws elem_exn w4 \<and>
        relocated T (take k xs) ys1 \<and>
        Emplace T (Ptr a k) mk this w =
          Throws elem_exn
            (this, w\<lparr>heap := (heap w)(a \<mapsto> map Live (rs1 @ rs2)),
                     next_addr := Suc (next_addr w),
                     env := foldl (\<lambda>e y. dtor T y e) (env w4) (ys1 @ [x])\<rparr>) \<and>
        length rs1 = k \<and> length rs2 = length xs - k \<and>
        (\<not> uses_move T \<longrightarrow> rs1 @ rs2 = xs) \<and> throwing_relocation T) \<or>
     (\<exists>x e1 ys1 ys2 w3 w4 e'. mk (env w) = (Some x, e1) \<and> \<not> avail w < grown (length xs) \<and>
        ReallocatePartial T (Ptr a 0) k (Ptr (next_addr w) 0)
          (new_block_with w (grown (length xs)) k x e1) = Returns () w3 \<and>
        ReallocatePartial T (Ptr a k) (length xs - k) (Ptr (next_addr w) (Suc k)) w3 =
          Returns () w4 \<and>
        Emplace T (Ptr a k) mk this w =
          Returns (Ptr (next_addr w) k)
            (this\<lparr>v_data := \<lparr>rm_buffer = Ptr (next_addr w) 0, rm_capacity = grown (length xs)\<rparr>,
                  v_size := Suc (length xs)\<rparr>,
             w\<lparr>heap := (heap w)(a := None,
                    next_addr w \<mapsto> map Live (ys1 @ x # ys2) @
                      replicate (grown (length xs) - Suc (length xs)) Raw),
                next_addr := Suc (next_addr w),
                avail := avail w - grown (length xs) + length xs, env := e'\<rparr>) \<and>
        relocated T (take k xs) ys1 \<and> relocated T (drop k xs) ys2)"
proof -
  let ?n = "length xs"
  let ?c = "grown ?n"
  let ?b = "next_addr w"
  let ?nd = "\<lparr>rm_buffer = Ptr ?b 0, rm_capacity = ?c\<rparr>"
  let ?w1 = "w\<lparr>heap := (heap w)(?b \<mapsto> replicate ?c Raw), next_addr := Suc ?b, avail := avail w - ?c\<rparr>"
  have lt: "?n < ?c" using k by (simp add: grown_def)
  have kc: "k < ?c" using k lt by simp
  have c0: "?c \<noteq> 0" by (simp add: grown_def)
  have fresh: "heap w ?b = None" using wfw by (simp add: wf_world_def)
  have ab: "a \<noteq> ?b" using ha fresh by auto
  have ne: "Ptr a k \<noteq> Vector_end this"
    using k by (simp add: Vector_end_def GetAddress_def buf sz)
  have full: "\<not> v_size this < rm_capacity (v_data this)" using sz cap by simp
  have pd: "ptr_diff (Ptr a k) (Vector_begin this) = Some k"
    by (simp add: Vector_begin_def GetAddress_def buf)
  have fits: "?c * sizeof_T w < 2 ^ 64"
    using wf_world_fits_grown [OF wfw ha] by simp
  note rc = RawMemory_ctor_eq [OF wf_world_sizeof [OF wfw] fits]
  have g: "(if v_size this = 0 then 1 else rm_capacity (v_data this) * 2) = ?c"
    using sz cap by (simp add: grown_def)
  show ?thesis
  proof (cases "avail w < ?c")
    case True
    then have "RawMemory_ctor (if v_size this = 0 then 1 else rm_capacity (v_data this) * 2) w =
        Throws bad_alloc w"
      using c0 by (simp add: g rc)
    then have "on_world (RawMemory_ctor (if v_size this = 0 then 1 else rm_capacity (v_data this) * 2))
        this w = Throws bad_alloc (this, w)"
      by (simp add: on_world_def)
    then have "Emplace T (Ptr a k) mk this w = Throws bad_alloc (this, w)"
      unfolding Emplace_def Let_def RawMemory_Capacity_def GetAddress_def
      using ne full by simp
    then show ?thesis using True by blast
  next
    case False
    have alloc: "RawMemory_ctor (if v_size this = 0 then 1 else rm_capacity (v_data this) * 2) w =
        Returns ?nd ?w1"
      using False c0 by (simp add: g rc)
    note unfold = Emplace_realloc_unfold [OF ne full alloc pd, of T mk]
    have h1: "heap ?w1 ?b = Some (replicate k Raw @ Raw # replicate (?c - Suc k) Raw)"
      using replicate_split [OF kc, of Raw] by simp
    have cons: "construct_at (Ptr ?b k) mk ?w1 =
       (case mk (env w) of
          (None, e') \<Rightarrow> Throws elem_exn (?w1\<lparr>env := e'\<rparr>)
        | (Some x, e') \<Rightarrow> Returns () (new_block_with w ?c k x e'))"
      using construct_at_shape [OF h1, of mk]
      by (simp add: new_block_with_def split: prod.splits option.splits)
    obtain r e1 where m: "mk (env w) = (r, e1)" by (cases "mk (env w)")
    show ?thesis
    proof (cases r)
      case None
      have d: "RawMemory_dtor ?nd (?w1\<lparr>env := e1\<rparr>) =
          Returns () (w\<lparr>next_addr := Suc ?b, env := e1\<rparr>)"
        using False fresh
        by (subst RawMemory_dtor_Ptr [where a = ?b and B = "replicate ?c Raw"])
          (simp_all add: fresh_upd_none)
      have "Emplace T (Ptr a k) mk this w =
          Throws elem_exn (this, w\<lparr>next_addr := Suc ?b, env := e1\<rparr>)"
        using d by (simp add: unfold cons m None on_world_def)
      then show ?thesis using m None False by blast
    next
      case (Some x)
      let ?S = "Live x # replicate (?c - Suc k) Raw"
      let ?w2 = "new_block_with w ?c k x e1"
      have c2: "construct_at (Ptr ?b k) mk ?w1 = Returns () ?w2"
        by (simp add: cons m Some)
      have mx: "mk (env w) = (Some x, e1)" using m Some by simp
      have xs_split: "map Live xs = map Live (take k xs) @ map Live (drop k xs)"
        by (simp add: map_append [symmetric] del: map_append)
      have ha2: "heap ?w2 a = Some ([] @ map Live (take k xs) @ map Live (drop k xs))"
        using ha ab xs_split by (simp add: new_block_with_def)
      have hb2: "heap ?w2 ?b = Some ([] @ replicate (length (take k xs)) Raw @ ?S)"
        using k by (simp add: new_block_with_def)
      have lk: "length (take k xs) = k" using k by simp
      have idx: "RawMemory_index ?nd k = Some (Ptr ?b k)"
        using kc by (simp add: RawMemory_index_def)
      have dealloc: "RawMemory_dtor ?nd
            (w\<lparr>heap := (heap w)(a \<mapsto> A, ?b \<mapsto> B), next_addr := Suc ?b, avail := avail w - ?c,
               env := e\<rparr>) =
          Returns () (w\<lparr>heap := (heap w)(a \<mapsto> A), next_addr := Suc ?b, env := e\<rparr>)"
        if "length B = ?c" for A B e
        using False fresh ab that
        by (subst RawMemory_dtor_Ptr [where a = ?b and B = B])
          (simp_all add: upd_fresh_after)
      from ReallocatePartial_shape [OF ha2 hb2 ab, of T]
      show ?thesis
      proof (elim disjE exE conjE, goal_cases)
        case (2 rs e3)
        let ?w3 = "?w2\<lparr>heap := (heap ?w2)(a \<mapsto> [] @ map Live rs @ map Live (drop k xs)), env := e3\<rparr>"
        have p: "ReallocatePartial T (Ptr a 0) k (Ptr ?b 0) ?w2 = Throws elem_exn ?w3"
          using 2(1) lk by simp
        have h3: "heap ?w3 ?b = Some (replicate k Raw @ Live x # replicate (?c - Suc k) Raw)"
          using ab by (simp add: new_block_with_def)
        have d3: "destroy_at T (Ptr ?b k) ?w3 =
            Returns () (w\<lparr>heap := (heap w)(a \<mapsto> map Live (rs @ drop k xs),
                              ?b \<mapsto> replicate k Raw @ Raw # replicate (?c - Suc k) Raw),
                          next_addr := Suc ?b, avail := avail w - ?c, env := dtor T x e3\<rparr>)"
          using destroy_at_shape [OF h3, of T] ab
          by (simp add: new_block_with_def fun_upd_twist)
        have "length (replicate k Raw @ Raw # replicate (?c - Suc k) (Raw :: 'a slot)) = ?c"
          using kc by simp
        note dd = dealloc [OF this]
        have "Emplace T (Ptr a k) mk this w =
            Throws elem_exn
              (this, w\<lparr>heap := (heap w)(a \<mapsto> map Live (rs @ drop k xs)),
                       next_addr := Suc ?b, env := dtor T x (env ?w3)\<rparr>)"
          using p d3 dd idx
          by (simp add: unfold c2 on_world_def Vector_begin_def GetAddress_def buf)
        moreover have "length rs = k" "\<not> uses_move T \<longrightarrow> rs = take k xs"
          using 2(2,3) lk by simp_all
        ultimately show ?case using mx False p 2(4) by blast
      next
        case (1 ys1 rs1 e3)
        let ?w3 = "?w2\<lparr>heap := (heap ?w2)(a \<mapsto> [] @ map Live rs1 @ map Live (drop k xs),
                      ?b \<mapsto> [] @ map Live ys1 @ ?S), env := e3\<rparr>"
        have p: "ReallocatePartial T (Ptr a 0) k (Ptr ?b 0) ?w2 = Returns () ?w3"
          using 1(1) lk by simp
        have rel1: "relocated T (take k xs) ys1" by (rule 1(2))
        have lr1: "length rs1 = k" using 1(3) lk by simp
        have ly1: "length ys1 = k"
          using rel1 lk by (auto simp add: relocated_def dest: list_all2_lengthD split: if_splits)
        have rs1: "\<not> uses_move T \<longrightarrow> rs1 = take k xs" using 1(4) .
        have rep: "replicate (?c - Suc k) Raw =
            replicate (length (drop k xs)) Raw @ replicate (?c - Suc ?n) (Raw :: 'a slot)"
          using k lt by (simp add: replicate_add [symmetric])
        have ha3: "heap ?w3 a = Some (map Live rs1 @ map Live (drop k xs) @ [])"
          using ab by simp
        have hb3: "heap ?w3 ?b =
            Some ((map Live ys1 @ [Live x]) @ replicate (length (drop k xs)) Raw @
                  replicate (?c - Suc ?n) Raw)"
          using rep by simp
        from ReallocatePartial_shape [OF ha3 hb3 ab, of T]
        show ?case
        proof (elim disjE exE conjE, goal_cases)
          case (2 rs2 e4)
          let ?w4 = "?w3\<lparr>heap := (heap ?w3)(a \<mapsto> map Live rs1 @ map Live rs2 @ []), env := e4\<rparr>"
          have q: "ReallocatePartial T (Ptr a k) (?n - k) (Ptr ?b (Suc k)) ?w3 =
              Throws elem_exn ?w4"
            using 2(1) lr1 ly1 by simp
          have h4: "heap ?w4 ?b =
              Some ([] @ map Live (ys1 @ [x]) @ replicate (?c - Suc k) Raw)"
            using ab rep by simp
          have d4: "destroy_n T (Ptr ?b 0) (Suc k) ?w4 =
              Returns (Ptr ?b (Suc k))
                (w\<lparr>heap := (heap w)(a \<mapsto> map Live (rs1 @ rs2),
                        ?b \<mapsto> replicate (Suc k) Raw @ replicate (?c - Suc k) Raw),
                   next_addr := Suc ?b, avail := avail w - ?c,
                   env := foldl (\<lambda>e y. dtor T y e) e4 (ys1 @ [x])\<rparr>)"
            using destroy_n_shape [OF h4, of T] ab ly1
            by (simp add: new_block_with_def fun_upd_twist)
          have "length (replicate (Suc k) Raw @ replicate (?c - Suc k) (Raw :: 'a slot)) = ?c"
            using kc by simp
          note dd = dealloc [OF this]
          have "Emplace T (Ptr a k) mk this w =
              Throws elem_exn
                (this, w\<lparr>heap := (heap w)(a \<mapsto> map Live (rs1 @ rs2)),
                         next_addr := Suc ?b,
                         env := foldl (\<lambda>e y. dtor T y e) (env ?w4) (ys1 @ [x])\<rparr>)"
            using p q d4 dd
            by (simp add: unfold c2 on_world_def Vector_begin_def GetAddress_def buf sz)
          moreover have "length rs2 = ?n - k" using 2(2) by simp
          moreover have "\<not> uses_move T \<longrightarrow> rs1 @ rs2 = xs"
            using rs1 2(3) by auto
          ultimately show ?case using mx False p q rel1 lr1 2(4) by blast
        next
          case (1 ys2 rs2 e4)
          let ?w4 = "?w3\<lparr>heap := (heap ?w3)(a \<mapsto> map Live rs1 @ map Live rs2 @ [],
                        ?b \<mapsto> (map Live ys1 @ [Live x]) @ map Live ys2 @
                          replicate (?c - Suc ?n) Raw), env := e4\<rparr>"
          have q: "ReallocatePartial T (Ptr a k) (?n - k) (Ptr ?b (Suc k)) ?w3 = Returns () ?w4"
            using 1(1) lr1 ly1 by simp
          have lr2: "length rs2 = ?n - k" using 1(3) by simp
          have h4: "heap ?w4 a = Some ([] @ map Live (rs1 @ rs2) @ [])"
            using ab by simp
          have d4: "destroy_n T (Ptr a 0) ?n ?w4 =
              Returns (Ptr a ?n)
                (w\<lparr>heap := (heap w)(a \<mapsto> replicate ?n Raw,
                        ?b \<mapsto> map Live (ys1 @ x # ys2) @ replicate (?c - Suc ?n) Raw),
                   next_addr := Suc ?b, avail := avail w - ?c,
                   env := foldl (\<lambda>e y. dtor T y e) e4 (rs1 @ rs2)\<rparr>)"
            using destroy_n_shape [OF h4, of T] ab lr1 lr2 k
            by (simp add: new_block_with_def fun_upd_twist)
          let ?w5 = "w\<lparr>heap := (heap w)(a \<mapsto> replicate ?n Raw,
                        ?b \<mapsto> map Live (ys1 @ x # ys2) @ replicate (?c - Suc ?n) Raw),
                   next_addr := Suc ?b, avail := avail w - ?c,
                   env := foldl (\<lambda>e y. dtor T y e) e4 (rs1 @ rs2)\<rparr>"
          have h5: "heap ?w5 a = Some (replicate ?n Raw)" using ab by simp
          have d5: "RawMemory_dtor (v_data this) ?w5 =
              Returns () (?w5\<lparr>heap := (heap ?w5)(a := None), avail := avail ?w5 + ?n\<rparr>)"
            using RawMemory_dtor_Ptr [OF h5 buf] by simp
          have "Emplace T (Ptr a k) mk this w =
              Returns (Ptr ?b k)
                (this\<lparr>v_data := ?nd, v_size := Suc ?n\<rparr>,
                 w\<lparr>heap := (heap w)(a := None,
                        ?b \<mapsto> map Live (ys1 @ x # ys2) @ replicate (?c - Suc ?n) Raw),
                    next_addr := Suc ?b, avail := avail w - ?c + ?n,
                    env := foldl (\<lambda>e y. dtor T y e) e4 (rs1 @ rs2)\<rparr>)"
            using p q d4 d5 ab
            by (simp add: unfold c2 on_world_def Vector_begin_def GetAddress_def buf sz
                fun_upd_twist)
          then show ?case using mx False p q rel1 1(2) by blast
        qed
      qed
    qed
  qed
qed

lemmas alloc_defs = RawMemory_ctor_def Allocate_def operator_new_def size_t_mul_def

lemma RawMemory_ctor_small:
  assumes "sizeof_T w = 4" and "c \<le> 64"
  shows "RawMemory_ctor c w =
     (if c = 0 then Returns \<lparr>rm_buffer = Null, rm_capacity = 0\<rparr> w
      else if avail w < c then Throws bad_alloc w
      else Returns \<lparr>rm_buffer = Ptr (next_addr w) 0, rm_capacity = c\<rparr>
             (w\<lparr>heap := (heap w)(next_addr w \<mapsto> replicate c Raw),
                next_addr := Suc (next_addr w), avail := avail w - c\<rparr>))"
proof -
  have "0 < sizeof_T w" and "c * sizeof_T w < 2 ^ 64" using assms by simp_all
  then show ?thesis by (rule RawMemory_ctor_eq)
qed

lemmas eval_defs = world_of_def vec_of_def copy_throwing_type_def plain_type_def move_only_type_def
  test_type_def counted_def copy_of_def move_of_def value_of_def
  EmplaceBack_def Emplace_def Erase_def RawMemory_Capacity_def GetAddress_def
  Vector_begin_def Vector_end_def on_world_def RawMemory_ctor_small construct_at_def slot_at_def
  put_slot_def ReallocateData_def ReallocatePartial_def deref_def copy_construct_at_def
  move_construct_at_def move_assign_at_def copy_assign_at_def destroy_at_def
  RawMemory_index_def RawMemory_Swap_eq RawMemory_dtor_def Deallocate_def operator_delete_def
  local_construct_def local_destroy_def move_assign_from_local_def std_move_def
  move_backward_def new_block_with_def grown_def Let_def eval_nat_numeral

lemma move_construct_at_adjacent:
  assumes "heap w a = Some (P @ Live x # Raw # S)"
  shows "move_construct_at T (Ptr a (Suc (length P))) (Ptr a (length P)) w =
     (case move_ctor T x (env w) of
        (None, e') \<Rightarrow> Throws elem_exn (w\<lparr>env := e'\<rparr>)
      | (Some (y, r), e') \<Rightarrow>
          Returns () (w\<lparr>heap := (heap w)(a \<mapsto> P @ Live r # Live y # S), env := e'\<rparr>))"
proof -
  have d: "deref w (Ptr a (length P)) = Some x" by (rule deref_shape [OF assms])
  have "heap w a = Some ((P @ [Live x]) @ Raw # S)" using assms by simp
  from slot_at_shape [OF this] have s: "slot_at w (Ptr a (Suc (length P))) = Some Raw" by simp
  show ?thesis
    using assms
    by (simp add: move_construct_at_def d s put_slot_def list_update_append
        split: prod.splits option.splits)
qed

lemma move_assign_from_local_shape:
  assumes "heap w a = Some (P @ Live t # S)"
  shows "move_assign_from_local T (Ptr a (length P)) x w =
     (case move_assign T t x (env w) of
        (None, e') \<Rightarrow> Throws elem_exn (w\<lparr>env := e'\<rparr>)
      | (Some (y, r), e') \<Rightarrow>
          Returns r (w\<lparr>heap := (heap w)(a \<mapsto> P @ Live y # S), env := e'\<rparr>))"
  using assms
  by (simp add: move_assign_from_local_def deref_shape [OF assms] put_slot_shape
      split: prod.splits option.splits)

lemma Emplace_inplace:
  assumes buf: "rm_buffer (v_data this) = Ptr a 0"
    and ha: "heap w a = Some (map Live xs @ Raw # R)"
    and sz: "v_size this = length xs"
    and lt: "length xs < rm_capacity (v_data this)"
    and k: "k < length xs"
  shows
    "(\<exists>e1. mk (env w) = (None, e1) \<and>
        Emplace T (Ptr a k) mk this w = Throws elem_exn (this, w\<lparr>env := e1\<rparr>)) \<or>
     (\<exists>e'. Emplace T (Ptr a k) mk this w = Throws elem_exn (this, w\<lparr>env := e'\<rparr>) \<and>
        throwing_move_ctor T) \<or>
     (\<exists>zs e'. Emplace T (Ptr a k) mk this w =
          Throws elem_exn (this, w\<lparr>heap := (heap w)(a \<mapsto> map Live zs @ R), env := e'\<rparr>) \<and>
        length zs = Suc (length xs) \<and> throwing_move_assign T) \<or>
     (\<exists>x e1 y0 ys y e'. mk (env w) = (Some x, e1) \<and>
        Emplace T (Ptr a k) mk this w =
          Returns (Ptr a k)
            (this\<lparr>v_size := Suc (length xs)\<rparr>,
             w\<lparr>heap := (heap w)(a \<mapsto> map Live (take k xs @ y0 # ys @ [y]) @ R), env := e'\<rparr>) \<and>
        move_assign_result T x y0 \<and>
        list_all2 (move_assign_result T) (butlast (drop k xs)) ys \<and>
        move_result T (last xs) y)"
proof -
  let ?n = "length xs"
  let ?P = "map Live (take k xs)"
  let ?mid = "butlast (drop k xs)"
  have n0: "xs \<noteq> []" using k by auto
  have lenP: "length ?P = k" using k by simp
  have lmid: "length ?mid = ?n - Suc k" by simp
  have xs: "xs = take k xs @ ?mid @ [last xs]"
    using k n0 by (metis append_butlast_last_id append_take_drop_id drop_eq_Nil2 last_drop not_less)
  have pm: "k + length ?mid = ?n - 1" using k by simp
  have sn0: "Suc (?n - Suc 0) = ?n" using k by simp
  have ne: "Ptr a k \<noteq> Vector_end this"
    using k by (simp add: Vector_end_def GetAddress_def buf sz)
  note defs = Emplace_def Vector_begin_def Vector_end_def GetAddress_def RawMemory_Capacity_def
    buf sz on_world_def local_construct_def local_destroy_def move_backward_def
    RawMemory_index_def Let_def
  obtain r0 e1 where m: "mk (env w) = (r0, e1)" by (cases "mk (env w)")
  show ?thesis
  proof (cases r0)
    case None
    have "Emplace T (Ptr a k) mk this w = Throws elem_exn (this, w\<lparr>env := e1\<rparr>)"
      using k lt by (simp add: defs m None)
    then show ?thesis using m None by blast
  next
    case (Some x)
    let ?w1 = "w\<lparr>env := e1\<rparr>"
    have h1: "heap ?w1 a = Some ((?P @ map Live ?mid) @ Live (last xs) # Raw # R)"
      using ha by (subst (asm) xs) simp
    have l1: "length (?P @ map Live ?mid) = ?n - 1" using pm lenP by simp
    have mc: "move_construct_at T (Ptr a ?n) (Ptr a (?n - 1)) ?w1 =
       (case move_ctor T (last xs) e1 of
          (None, e') \<Rightarrow> Throws elem_exn (?w1\<lparr>env := e'\<rparr>)
        | (Some (y, r), e') \<Rightarrow>
            Returns () (?w1\<lparr>heap := (heap ?w1)(a \<mapsto> (?P @ map Live ?mid) @ Live r # Live y # R),
                            env := e'\<rparr>))"
    proof -
      have sn: "Suc (?n - 1) = ?n" using k by simp
      show ?thesis
        using move_construct_at_adjacent [OF h1, of T] unfolding l1 sn by simp
    qed
    obtain q e2 where c: "move_ctor T (last xs) e1 = (q, e2)" by (cases "move_ctor T (last xs) e1")
    show ?thesis
    proof (cases q)
      case None
      have "throwing_move_ctor T"
        unfolding throwing_move_ctor_def using c None by (metis fst_conv)
      moreover have "Emplace T (Ptr a k) mk this w = Throws elem_exn (this, w\<lparr>env := dtor T x e2\<rparr>)"
        using k lt mc by (simp add: defs m Some c None)
      ultimately show ?thesis by blast
    next
      case (Some yr)
      obtain y r where yr: "yr = (y, r)" by (cases yr)
      let ?w2 = "w\<lparr>heap := (heap w)(a \<mapsto> ?P @ map Live ?mid @ Live r # Live y # R), env := e2\<rparr>"
      have mc2: "move_construct_at T (Ptr a ?n) (Ptr a (?n - 1)) ?w1 = Returns () ?w2"
        using mc by (simp add: c Some yr)
      have my: "move_result T (last xs) y"
        unfolding move_result_def using c Some yr by (metis fst_conv)
      have h2: "heap ?w2 a = Some (?P @ map Live ?mid @ Live r # (Live y # R))" by simp
      have pd: "ptr_diff (Ptr a (?n - 1)) (Ptr a k) = Some (length ?mid)" using k by simp
      from move_backward_n_shape [OF h2, of T]
      have mb: "(\<exists>ys r' e'. move_backward_n T (Ptr a (?n - 1)) (length ?mid) (Ptr a ?n) ?w2 =
            Returns (Ptr a (Suc k))
              (?w2\<lparr>heap := (heap ?w2)(a \<mapsto> ?P @ Live r' # map Live ys @ (Live y # R)), env := e'\<rparr>) \<and>
            list_all2 (move_assign_result T) ?mid ys) \<or>
         (\<exists>zs e'. move_backward_n T (Ptr a (?n - 1)) (length ?mid) (Ptr a ?n) ?w2 =
            Throws elem_exn (?w2\<lparr>heap := (heap ?w2)(a \<mapsto> ?P @ map Live zs @ (Live y # R)), env := e'\<rparr>) \<and>
            length zs = Suc (length ?mid) \<and> throwing_move_assign T)"
        using k lenP by (simp add: sn0)
      then show ?thesis
      proof (elim disjE exE conjE, goal_cases)
        case (2 zs e')
        have "Emplace T (Ptr a k) mk this w =
            Throws elem_exn
              (this, w\<lparr>heap := (heap w)(a \<mapsto> map Live (take k xs @ zs @ [y]) @ R),
                       env := dtor T x e'\<rparr>)"
          using k lt mc2 2(1) pd by (simp add: defs m \<open>r0 = Some x\<close>)
        moreover have "length (take k xs @ zs @ [y]) = Suc ?n" using 2(2) k by simp
        ultimately show ?case using 2(3) by blast
      next
        case (1 ys r' e3)
        let ?w3 = "w\<lparr>heap := (heap w)(a \<mapsto> ?P @ Live r' # map Live ys @ Live y # R), env := e3\<rparr>"
        have mb3: "move_backward_n T (Ptr a (?n - 1)) (length ?mid) (Ptr a ?n) ?w2 =
            Returns (Ptr a (Suc k)) ?w3"
          using 1(1) by simp
        have h3: "heap ?w3 a = Some (?P @ Live r' # (map Live ys @ Live y # R))" by simp
        have ma: "move_assign_from_local T (Ptr a k) x ?w3 =
           (case move_assign T r' x e3 of
              (None, e') \<Rightarrow> Throws elem_exn (?w3\<lparr>env := e'\<rparr>)
            | (Some (y0, c1), e') \<Rightarrow>
                Returns c1 (?w3\<lparr>heap := (heap ?w3)(a \<mapsto> ?P @ Live y0 # (map Live ys @ Live y # R)),
                               env := e'\<rparr>))"
          using move_assign_from_local_shape [OF h3, of T x] lenP by simp
        have ly: "length ys = ?n - Suc k" using list_all2_lengthD [OF 1(2)] by simp
        obtain q4 e4 where a4: "move_assign T r' x e3 = (q4, e4)" by (cases "move_assign T r' x e3")
        show ?case
        proof (cases q4)
          case None
          have "throwing_move_assign T"
            unfolding throwing_move_assign_def using a4 None by (metis fst_conv)
          moreover have "Emplace T (Ptr a k) mk this w =
              Throws elem_exn
                (this, w\<lparr>heap := (heap w)(a \<mapsto> map Live (take k xs @ r' # ys @ [y]) @ R),
                         env := dtor T x e4\<rparr>)"
            using k lt mc2 mb3 pd ma by (simp add: defs m \<open>r0 = Some x\<close> a4 None)
          moreover have "length (take k xs @ r' # ys @ [y]) = Suc ?n" using ly k by simp
          ultimately show ?thesis by blast
        next
          case (Some yc)
          obtain y0 c1 where yc: "yc = (y0, c1)" by (cases yc)
          have "move_assign_result T x y0"
            unfolding move_assign_result_def using a4 Some yc by (metis fst_conv)
          moreover have "Emplace T (Ptr a k) mk this w =
              Returns (Ptr a k)
                (this\<lparr>v_size := Suc ?n\<rparr>,
                 w\<lparr>heap := (heap w)(a \<mapsto> map Live (take k xs @ y0 # ys @ [y]) @ R),
                    env := dtor T c1 e4\<rparr>)"
            using k lt mc2 mb3 pd ma by (simp add: defs m \<open>r0 = Some x\<close> a4 Some yc)
          ultimately show ?thesis using m \<open>r0 = Some x\<close> 1(2) my by blast
        qed
      qed
    qed
  qed
qed

lemma placed_atI:
  assumes "r = Returns (Ptr b k) (this', w')"
    and "rm_buffer (v_data this') = Ptr b 0"
    and "heap w' b = Some (map Live (take k xs @ x # drop k xs) @ replicate m Raw)"
    and "v_size this' = Suc (length xs)"
    and "rm_capacity (v_data this') = Suc (length xs) + m"
    and "k \<le> length xs"
  shows "placed_at k x xs r"
proof -
  let ?zs = "take k xs @ x # drop k xs"
  have len: "length ?zs = Suc (length xs)" using assms(6) by simp
  have beg: "ptr_add (Vector_begin this') k = Ptr b k"
    by (simp add: Vector_begin_def GetAddress_def assms(2))
  have wf: "wf_vec this' w'"
    using assms(4,5) len by (intro wf_vecI [OF assms(2,3)]) simp_all
  have el: "elems this' w' = ?zs"
    using assms(4) len by (intro elems_shape [OF assms(2,3)]) simp
  have "heap w' b = Some (map Live (take k xs) @ Live x # (map Live (drop k xs) @ replicate m Raw))"
    using assms(3) by simp
  from deref_shape [OF this] have "deref w' (Ptr b k) = Some x" using assms(6) by simp
  then show ?thesis
    unfolding placed_at_def using assms(1,4) wf el beg by (auto simp add: Size_def)
qed

lemma Emplace_places:
  assumes wfw: "wf_world w" and wfv: "wf_vec this w" and reg: "regular T"
    and k: "k \<le> Size this"
  shows
    "(\<exists>x. fst (mk (env w)) = Some x \<and>
        placed_at k x (elems this w) (Emplace T (ptr_add (Vector_begin this) k) mk this w)) \<or>
     (\<exists>e s. Emplace T (ptr_add (Vector_begin this) k) mk this w = Throws e s \<and>
        (fst (mk (env w)) = None \<or> avail w < grown (Capacity this) \<or>
         throwing_relocation T \<or> throwing_move_ctor T \<or> throwing_move_assign T))"
proof (cases "rm_buffer (v_data this)")
  case Null
  note wf = wf_vec_NullD [OF wfv Null]
  have k0: "k = 0" using k wf(2) by (simp add: Size_def)
  have pos: "Emplace T (ptr_add (Vector_begin this) k) mk this w = EmplaceBack T mk this w"
    by (simp add: Emplace_def Vector_begin_def Vector_end_def GetAddress_def Null)
  have el: "elems this w = []" by (rule elems_Null [OF Null])
  have C: "Capacity this = 0" using wf(1) by (simp add: Capacity_def RawMemory_Capacity_def)
  note eb = EmplaceBack_Null [OF wfw Null wf, of T mk]
  obtain r e1 where m: "mk (env w) = (r, e1)" by (cases "mk (env w)")
  show ?thesis
  proof (cases "avail w < 1")
    case True
    then show ?thesis unfolding pos C using eb by (simp add: grown_def)
  next
    case False
    show ?thesis
    proof (cases r)
      case None
      then show ?thesis unfolding pos using eb False m by simp
    next
      case (Some x)
      let ?this' = "this\<lparr>v_data := \<lparr>rm_buffer = Ptr (next_addr w) 0, rm_capacity = 1\<rparr>, v_size := 1\<rparr>"
      let ?w' = "w\<lparr>heap := (heap w)(next_addr w \<mapsto> [Live x]), next_addr := Suc (next_addr w),
                 avail := avail w - 1, env := e1\<rparr>"
      have r: "EmplaceBack T mk this w = Returns (Ptr (next_addr w) k) (?this', ?w')"
        using eb False m Some k0 by simp
      have "placed_at k x (elems this w) (EmplaceBack T mk this w)"
        by (rule placed_atI [OF r, where m = 0]) (simp_all add: el k0)
      then show ?thesis unfolding pos using m Some by auto
    qed
  qed
next
  case (Ptr a i)
  note wf = wf_vec_PtrD [OF wfv Ptr]
  let ?xs = "elems this w"
  let ?n = "length ?xs"
  let ?c = "rm_capacity (v_data this)"
  let ?b = "next_addr w"
  have buf: "rm_buffer (v_data this) = Ptr a 0" using Ptr wf(1) by simp
  have sz: "v_size this = ?n" using wf(3) by simp
  have kn: "k \<le> ?n" using k sz by (simp add: Size_def)
  have C: "Capacity this = ?c" by (simp add: Capacity_def RawMemory_Capacity_def)
  have le: "?n \<le> ?c" using wf(2,3) by simp
  have beg: "Vector_begin this = Ptr a 0" by (simp add: Vector_begin_def GetAddress_def buf)
  have pos: "ptr_add (Vector_begin this) k = Ptr a k" by (simp add: beg)
  have fresh: "heap w ?b = None" using wfw by (simp add: wf_world_def)
  have hfull: "heap w a = Some (map Live ?xs)" if "?c = ?n" using wf(4) that sz by simp
  have hroom: "heap w a = Some (map Live ?xs @ Raw # replicate (?c - Suc ?n) Raw)" if "?n < ?c"
  proof -
    have "replicate (?c - ?n) Raw = Raw # replicate (?c - Suc ?n) (Raw :: 'a slot)"
      using that by (cases "?c - ?n") (simp_all add: Suc_diff_Suc)
    then show ?thesis using wf(4) sz by simp
  qed
  show ?thesis
  proof (cases "k = ?n")
    case True
    have E: "Emplace T (Ptr a k) mk this w = EmplaceBack T mk this w"
      using True by (simp add: Emplace_def Vector_end_def GetAddress_def buf sz)
    have td: "take k ?xs @ x # drop k ?xs = ?xs @ [x]" for x using True by simp
    show ?thesis
    proof (cases "?n < ?c")
      case lt: True
      note eb = EmplaceBack_inplace [OF buf hroom [OF lt] sz lt, of T mk]
      obtain r e1 where m: "mk (env w) = (r, e1)" by (cases "mk (env w)")
      show ?thesis
      proof (cases r)
        case None
        then show ?thesis unfolding pos E using eb m by simp
      next
        case (Some x)
        let ?this' = "this\<lparr>v_size := Suc ?n\<rparr>"
        let ?w' = "w\<lparr>heap := (heap w)(a \<mapsto> map Live (?xs @ [x]) @ replicate (?c - Suc ?n) Raw),
                     env := e1\<rparr>"
        have r: "EmplaceBack T mk this w = Returns (Ptr a k) (?this', ?w')"
          using eb m Some True by simp
        have "placed_at k x ?xs (EmplaceBack T mk this w)"
          using lt by (intro placed_atI [OF r, where m = "?c - Suc ?n"]) (simp_all add: buf td True)
        then show ?thesis unfolding pos E using m Some by auto
      qed
    next
      case False
      then have cap: "?c = ?n" using le by simp
      from EmplaceBack_realloc [OF wfw buf hfull [OF cap] sz cap, of T mk]
      show ?thesis
      proof (elim disjE exE conjE, goal_cases)
        case 1
        then show ?case unfolding pos E C cap by auto
      next
        case (2 e')
        then show ?case unfolding pos E by auto
      next
        case (3 x rs e')
        then show ?case unfolding pos E by auto
      next
        case (4 x ys e')
        have ys: "ys = ?xs" by (rule regular_relocated [OF reg 4(4)])
        let ?this' = "this\<lparr>v_data := \<lparr>rm_buffer = Ptr ?b 0, rm_capacity = grown ?n\<rparr>,
                          v_size := Suc ?n\<rparr>"
        have lt: "?n < grown ?n" by (simp add: grown_def)
        have r: "EmplaceBack T mk this w =
            Returns (Ptr ?b k)
              (?this',
               w\<lparr>heap := (heap w)(a := None,
                      ?b \<mapsto> map Live (?xs @ [x]) @ replicate (grown ?n - Suc ?n) Raw),
                  next_addr := Suc ?b, avail := avail w - grown ?n + ?n, env := e'\<rparr>)"
          using 4(3) ys True by simp
        have "placed_at k x ?xs (EmplaceBack T mk this w)"
          using lt by (intro placed_atI [OF r, where m = "grown ?n - Suc ?n"]) (simp_all add: td True)
        then show ?case unfolding pos E using 4(1) by auto
      qed
    qed
  next
    case False
    then have klt: "k < ?n" using kn by simp
    have dn: "drop k ?xs \<noteq> []" using klt by simp
    show ?thesis
    proof (cases "?n < ?c")
      case lt: True
      from Emplace_inplace [OF buf hroom [OF lt] sz lt klt, of mk T]
      show ?thesis
      proof (elim disjE exE conjE, goal_cases)
        case (1 e1)
        then show ?case unfolding pos by auto
      next
        case (2 e')
        then show ?case unfolding pos by auto
      next
        case (3 zs e')
        then show ?case unfolding pos by auto
      next
        case (4 x e1 y0 ys y e')
        have y0: "y0 = x" using reg 4(3) by (auto simp add: regular_def)
        have ys: "ys = butlast (drop k ?xs)" by (rule regular_move_assign [OF reg 4(4)])
        have "y = last ?xs" using reg 4(5) by (auto simp add: regular_def)
        then have y: "y = last (drop k ?xs)" using last_drop [OF klt] by simp
        have zs: "take k ?xs @ y0 # ys @ [y] = take k ?xs @ x # drop k ?xs"
          using append_butlast_last_id [OF dn] by (simp add: y0 ys y)
        have r: "Emplace T (Ptr a k) mk this w =
            Returns (Ptr a k)
              (this\<lparr>v_size := Suc ?n\<rparr>,
               w\<lparr>heap := (heap w)(a \<mapsto> map Live (take k ?xs @ x # drop k ?xs) @
                      replicate (?c - Suc ?n) Raw), env := e'\<rparr>)"
          using 4(2) unfolding zs .
        have "placed_at k x ?xs (Emplace T (Ptr a k) mk this w)"
          using lt klt by (intro placed_atI [OF r, where m = "?c - Suc ?n"]) (simp_all add: buf)
        then show ?case unfolding pos using 4(1) by auto
      qed
    next
      case False
      then have cap: "?c = ?n" using le by simp
      from Emplace_realloc [OF wfw buf hfull [OF cap] sz cap klt, of T mk]
      show ?thesis
      proof (elim disjE exE conjE, goal_cases)
        case 1
        then show ?case unfolding pos C cap by auto
      next
        case (2 e1)
        then show ?case unfolding pos by auto
      next
        case (3 x e1 rs w3)
        then show ?case unfolding pos by blast
      next
        case (4 x e1 rs1 rs2 ys1 w3 w4)
        then show ?case unfolding pos by blast
      next
        case (5 x e1 ys1 ys2 w3 w4 e')
        have y1: "ys1 = take k ?xs" by (rule regular_relocated [OF reg 5(6)])
        have y2: "ys2 = drop k ?xs" by (rule regular_relocated [OF reg 5(7)])
        have lt: "?n < grown ?n" by (simp add: grown_def)
        have r: "Emplace T (Ptr a k) mk this w =
            Returns (Ptr ?b k)
              (this\<lparr>v_data := \<lparr>rm_buffer = Ptr ?b 0, rm_capacity = grown ?n\<rparr>, v_size := Suc ?n\<rparr>,
               w\<lparr>heap := (heap w)(a := None,
                      ?b \<mapsto> map Live (take k ?xs @ x # drop k ?xs) @
                        replicate (grown ?n - Suc ?n) Raw),
                  next_addr := Suc ?b, avail := avail w - grown ?n + ?n, env := e'\<rparr>)"
          using 5(5) unfolding y1 y2 .
        have "placed_at k x ?xs (Emplace T (Ptr a k) mk this w)"
          using lt klt by (intro placed_atI [OF r, where m = "grown ?n - Suc ?n"]) simp_all
        then show ?case unfolding pos using 5(1) by auto
      qed
    qed
  qed
qed

lemma Vector_copy_ctor_empty:
  "v_size other = 0 \<Longrightarrow>
   Vector_copy_ctor T other w =
     Returns \<lparr>v_data = \<lparr>rm_buffer = Null, rm_capacity = 0\<rparr>, v_size = 0\<rparr> w"
  by (simp add: Vector_copy_ctor_def RawMemory_ctor_zero)

lemma Vector_copy_ctor_shape:
  assumes wfw: "wf_world w"
    and buf: "rm_buffer (v_data other) = Ptr b 0"
    and hb: "heap w b = Some (map Live ys @ R)"
    and sz: "v_size other = length ys"
    and ne: "ys \<noteq> []"
  shows
    "(avail w < length ys \<and> Vector_copy_ctor T other w = Throws bad_alloc w) \<or>
     (\<exists>e'. \<not> avail w < length ys \<and>
        Vector_copy_ctor T other w =
          Throws elem_exn (w\<lparr>next_addr := Suc (next_addr w), env := e'\<rparr>) \<and>
        throwing_copy_ctor T) \<or>
     (\<exists>ys' e'. \<not> avail w < length ys \<and>
        Vector_copy_ctor T other w =
          Returns \<lparr>v_data = \<lparr>rm_buffer = Ptr (next_addr w) 0, rm_capacity = length ys\<rparr>,
                   v_size = length ys\<rparr>
            (w\<lparr>heap := (heap w)(next_addr w \<mapsto> map Live ys'), next_addr := Suc (next_addr w),
               avail := avail w - length ys, env := e'\<rparr>) \<and>
        list_all2 (copy_result T) ys ys')"
proof -
  have fits: "length ys * sizeof_T w < 2 ^ 64"
    by (rule wf_world_fits_block [OF wfw hb]) simp
  note rc = RawMemory_ctor_eq [OF wf_world_sizeof [OF wfw] fits]
  show ?thesis
proof (cases "avail w < length ys")
  case True
  then have "Vector_copy_ctor T other w = Throws bad_alloc w"
    using ne by (simp add: Vector_copy_ctor_def rc sz)
  with True show ?thesis by blast
next
  case False
  let ?m = "length ys"
  let ?nb = "next_addr w"
  let ?nd = "\<lparr>rm_buffer = Ptr ?nb 0, rm_capacity = ?m\<rparr>"
  let ?w1 = "w\<lparr>heap := (heap w)(?nb \<mapsto> replicate ?m Raw), next_addr := Suc ?nb, avail := avail w - ?m\<rparr>"
  have fresh: "heap w ?nb = None" using wfw by (simp add: wf_world_def)
  have bn: "b \<noteq> ?nb" using hb fresh by auto
  have alloc: "RawMemory_ctor ?m w = Returns ?nd ?w1"
    using False ne by (simp add: rc)
  have h1: "heap ?w1 b = Some ([] @ map Live ys @ R)" using hb bn by simp
  have h2: "heap ?w1 ?nb = Some ([] @ replicate ?m Raw @ [])" by simp
  from uninitialized_copy_n_shape [OF h1 h2 bn, of T]
  show ?thesis
  proof (elim disjE exE conjE, goal_cases)
    case (1 ys' e')
    have "Vector_copy_ctor T other w =
        Returns \<lparr>v_data = ?nd, v_size = ?m\<rparr>
          (w\<lparr>heap := (heap w)(?nb \<mapsto> map Live ys'), next_addr := Suc ?nb,
             avail := avail w - ?m, env := e'\<rparr>)"
      using 1(1) by (simp add: Vector_copy_ctor_def alloc sz buf GetAddress_def)
    then show ?case using False 1(2) by blast
  next
    case (2 e')
    let ?w2 = "?w1\<lparr>env := e'\<rparr>"
    have h3: "heap ?w2 ?nb = Some (replicate ?m Raw)" by simp
    have d: "RawMemory_dtor ?nd ?w2 = Returns () (w\<lparr>next_addr := Suc ?nb, env := e'\<rparr>)"
      using False fresh
      by (subst RawMemory_dtor_Ptr [OF h3]) (simp_all add: fresh_upd_none)
    have "Vector_copy_ctor T other w = Throws elem_exn (w\<lparr>next_addr := Suc ?nb, env := e'\<rparr>)"
      using 2(1) d by (simp add: Vector_copy_ctor_def alloc sz buf GetAddress_def)
    then show ?case using False 2(2) by blast
  qed
qed
qed

lemma Vector_dtor_Null:
  "rm_buffer (v_data this) = Null \<Longrightarrow> v_size this = 0 \<Longrightarrow> Vector_dtor T this w = Returns () w"
  by (simp add: Vector_dtor_def RawMemory_dtor_Null)

lemma Vector_dtor_Ptr:
  assumes "rm_buffer (v_data this) = Ptr a 0" and "heap w a = Some (map Live xs @ R)"
    and "v_size this = length xs"
  shows "Vector_dtor T this w =
     Returns ()
       (w\<lparr>heap := (heap w)(a := None), avail := avail w + (length xs + length R),
          env := foldl (\<lambda>e x. dtor T x e) (env w) xs\<rparr>)"
proof -
  have h: "heap w a = Some ([] @ map Live xs @ R)" using assms(2) by simp
  let ?w1 = "w\<lparr>heap := (heap w)(a \<mapsto> [] @ replicate (length xs) Raw @ R),
                env := foldl (\<lambda>e x. dtor T x e) (env w) xs\<rparr>"
  have h1: "heap ?w1 a = Some (replicate (length xs) Raw @ R)" by simp
  show ?thesis
    using destroy_n_shape [OF h, of T] RawMemory_dtor_Ptr [OF h1 assms(1)]
    by (simp add: Vector_dtor_def GetAddress_def assms(1,3))
qed

lemma copy_assign_realloc_Ptr:
  assumes wfw: "wf_world w"
    and buf: "rm_buffer (v_data this) = Ptr a 0"
    and ha: "heap w a = Some (map Live xs @ R)"
    and sz: "v_size this = length xs"
    and rbuf: "rm_buffer (v_data rhs) = Ptr b 0"
    and hb: "heap w b = Some (map Live ys @ R')"
    and rsz: "v_size rhs = length ys"
    and gt: "rm_capacity (v_data this) < length ys"
  shows
    "(avail w < length ys \<and> copy_assign_distinct T rhs this w = Throws bad_alloc (this, w)) \<or>
     (\<exists>e'. \<not> avail w < length ys \<and>
        copy_assign_distinct T rhs this w =
          Throws elem_exn (this, w\<lparr>next_addr := Suc (next_addr w), env := e'\<rparr>) \<and>
        throwing_copy_ctor T) \<or>
     (\<exists>ys' e'. \<not> avail w < length ys \<and>
        copy_assign_distinct T rhs this w =
          Returns ()
            (\<lparr>v_data = \<lparr>rm_buffer = Ptr (next_addr w) 0, rm_capacity = length ys\<rparr>,
              v_size = length ys\<rparr>,
             w\<lparr>heap := (heap w)(a := None, next_addr w \<mapsto> map Live ys'),
                next_addr := Suc (next_addr w),
                avail := avail w - length ys + (length xs + length R), env := e'\<rparr>) \<and>
        list_all2 (copy_result T) ys ys')"
proof -
  let ?nb = "next_addr w"
  have ne: "ys \<noteq> []" using gt by auto
  have fresh: "heap w ?nb = None" using wfw by (simp add: wf_world_def)
  have an: "a \<noteq> ?nb" using ha fresh by auto
  note defs = copy_assign_distinct_def RawMemory_Capacity_def on_world_def Vector_Swap_eq rsz
  from Vector_copy_ctor_shape [OF wfw rbuf hb rsz ne, of T]
  show ?thesis
  proof (elim disjE exE conjE, goal_cases)
    case 1
    then show ?case using gt by (simp add: defs)
  next
    case (2 e')
    have "copy_assign_distinct T rhs this w =
        Throws elem_exn (this, w\<lparr>next_addr := Suc ?nb, env := e'\<rparr>)"
      using 2(2) gt by (simp add: defs)
    then show ?case using 2(1,3) by blast
  next
    case (3 ys' e')
    let ?w1 = "w\<lparr>heap := (heap w)(?nb \<mapsto> map Live ys'), next_addr := Suc ?nb,
                 avail := avail w - length ys, env := e'\<rparr>"
    have h1: "heap ?w1 a = Some (map Live xs @ R)" using ha an by simp
    have d: "Vector_dtor T this ?w1 =
        Returns ()
          (w\<lparr>heap := (heap w)(a := None, ?nb \<mapsto> map Live ys'), next_addr := Suc ?nb,
             avail := avail w - length ys + (length xs + length R),
             env := foldl (\<lambda>e x. dtor T x e) e' xs\<rparr>)"
      using Vector_dtor_Ptr [OF buf h1 sz, of T] an by (simp add: fun_upd_twist)
    have "copy_assign_distinct T rhs this w =
        Returns ()
          (\<lparr>v_data = \<lparr>rm_buffer = Ptr ?nb 0, rm_capacity = length ys\<rparr>, v_size = length ys\<rparr>,
           w\<lparr>heap := (heap w)(a := None, ?nb \<mapsto> map Live ys'), next_addr := Suc ?nb,
              avail := avail w - length ys + (length xs + length R),
              env := foldl (\<lambda>e x. dtor T x e) e' xs\<rparr>)"
      using 3(2) gt d by (simp add: defs)
    then show ?case using 3(1,3) by blast
  qed
qed

lemma copy_assign_realloc_Null:
  assumes wfw: "wf_world w"
    and buf: "rm_buffer (v_data this) = Null"
    and sz: "v_size this = 0"
    and rbuf: "rm_buffer (v_data rhs) = Ptr b 0"
    and hb: "heap w b = Some (map Live ys @ R')"
    and rsz: "v_size rhs = length ys"
    and gt: "rm_capacity (v_data this) < length ys"
  shows
    "(avail w < length ys \<and> copy_assign_distinct T rhs this w = Throws bad_alloc (this, w)) \<or>
     (\<exists>e'. \<not> avail w < length ys \<and>
        copy_assign_distinct T rhs this w =
          Throws elem_exn (this, w\<lparr>next_addr := Suc (next_addr w), env := e'\<rparr>) \<and>
        throwing_copy_ctor T) \<or>
     (\<exists>ys' e'. \<not> avail w < length ys \<and>
        copy_assign_distinct T rhs this w =
          Returns ()
            (\<lparr>v_data = \<lparr>rm_buffer = Ptr (next_addr w) 0, rm_capacity = length ys\<rparr>,
              v_size = length ys\<rparr>,
             w\<lparr>heap := (heap w)(next_addr w \<mapsto> map Live ys'),
                next_addr := Suc (next_addr w),
                avail := avail w - length ys, env := e'\<rparr>) \<and>
        list_all2 (copy_result T) ys ys')"
proof -
  let ?nb = "next_addr w"
  have ne: "ys \<noteq> []" using gt by auto
  note defs = copy_assign_distinct_def RawMemory_Capacity_def on_world_def Vector_Swap_eq rsz
  from Vector_copy_ctor_shape [OF wfw rbuf hb rsz ne, of T]
  show ?thesis
  proof (elim disjE exE conjE, goal_cases)
    case 1
    then show ?case using gt by (simp add: defs)
  next
    case (2 e')
    have "copy_assign_distinct T rhs this w =
        Throws elem_exn (this, w\<lparr>next_addr := Suc ?nb, env := e'\<rparr>)"
      using 2(2) gt by (simp add: defs)
    then show ?case using 2(1,3) by blast
  next
    case (3 ys' e')
    have "copy_assign_distinct T rhs this w =
        Returns ()
          (\<lparr>v_data = \<lparr>rm_buffer = Ptr ?nb 0, rm_capacity = length ys\<rparr>, v_size = length ys\<rparr>,
           w\<lparr>heap := (heap w)(?nb \<mapsto> map Live ys'), next_addr := Suc ?nb,
              avail := avail w - length ys, env := e'\<rparr>)"
      using 3(2) gt by (simp add: defs Vector_dtor_Null [OF buf sz])
    then show ?case using 3(1,3) by blast
  qed
qed

lemma copy_n_from:
  assumes hb: "heap w b = Some (P @ map Live ts @ S)"
    and len: "length ts = length xs"
    and src: "xs = [] \<or> (p = Ptr a (length P') \<and> heap w a = Some (P' @ map Live xs @ S') \<and> a \<noteq> b)"
  shows "(\<exists>ys e'. copy_n T p (length xs) (Ptr b (length P)) w =
            Returns (Ptr b (length P + length xs))
              (w\<lparr>heap := (heap w)(b \<mapsto> P @ map Live ys @ S), env := e'\<rparr>) \<and>
            list_all2 (copy_assign_result T) xs ys) \<or>
         (\<exists>zs e'. copy_n T p (length xs) (Ptr b (length P)) w =
            Throws elem_exn (w\<lparr>heap := (heap w)(b \<mapsto> P @ map Live zs @ S), env := e'\<rparr>) \<and>
            length zs = length xs \<and> xs \<noteq> [] \<and> throwing_copy_assign T)"
proof (cases "xs = []")
  case True
  then have "(heap w)(b \<mapsto> P @ S) = heap w" using hb len by (simp add: heap_upd_idem)
  then have "copy_n T p (length xs) (Ptr b (length P)) w =
      Returns (Ptr b (length P + length xs))
        (w\<lparr>heap := (heap w)(b \<mapsto> P @ map Live [] @ S), env := env w\<rparr>)"
    using True by simp
  then show ?thesis using True by (intro disjI1 exI conjI) (assumption, simp)
next
  case False
  with src have p: "p = Ptr a (length P')" and ha: "heap w a = Some (P' @ map Live xs @ S')"
    and ab: "a \<noteq> b" by simp_all
  from copy_n_shape [OF ha hb len ab, of T] False show ?thesis unfolding p by blast
qed

lemma uninitialized_copy_n_from:
  assumes hb: "heap w b = Some (P @ replicate (length xs) Raw @ S)"
    and src: "xs = [] \<or> (p = Ptr a (length P') \<and> heap w a = Some (P' @ map Live xs @ S') \<and> a \<noteq> b)"
  shows "(\<exists>ys e'. uninitialized_copy_n T p (length xs) (Ptr b (length P)) w =
            Returns (Ptr b (length P + length xs))
              (w\<lparr>heap := (heap w)(b \<mapsto> P @ map Live ys @ S), env := e'\<rparr>) \<and>
            list_all2 (copy_result T) xs ys) \<or>
         (\<exists>e'. uninitialized_copy_n T p (length xs) (Ptr b (length P)) w =
            Throws elem_exn (w\<lparr>env := e'\<rparr>) \<and> xs \<noteq> [] \<and> throwing_copy_ctor T)"
proof (cases "xs = []")
  case True
  then have "(heap w)(b \<mapsto> P @ S) = heap w" using hb by (simp add: heap_upd_idem)
  then have "uninitialized_copy_n T p (length xs) (Ptr b (length P)) w =
      Returns (Ptr b (length P + length xs))
        (w\<lparr>heap := (heap w)(b \<mapsto> P @ map Live [] @ S), env := env w\<rparr>)"
    using True by simp
  then show ?thesis using True by (intro disjI1 exI conjI) (assumption, simp)
next
  case False
  with src have p: "p = Ptr a (length P')" and ha: "heap w a = Some (P' @ map Live xs @ S')"
    and ab: "a \<noteq> b" by simp_all
  from uninitialized_copy_n_shape [OF ha hb ab, of T] False show ?thesis unfolding p by blast
qed

lemma copy_assign_inplace:
  assumes buf: "rm_buffer (v_data this) = Ptr a 0"
    and ha: "heap w a = Some (map Live xs @ replicate (c - length xs) Raw)"
    and sz: "v_size this = length xs"
    and cap: "rm_capacity (v_data this) = c"
    and xle: "length xs \<le> c"
    and rsz: "v_size rhs = length ys"
    and le: "length ys \<le> c"
    and src: "ys = [] \<or>
       (rm_buffer (v_data rhs) = Ptr b 0 \<and> heap w b = Some (map Live ys @ R') \<and> b \<noteq> a)"
  shows
    "(\<exists>ys1 ys2 e'. copy_assign_distinct T rhs this w =
          Returns ()
            (this\<lparr>v_size := length ys\<rparr>,
             w\<lparr>heap := (heap w)(a \<mapsto> map Live (ys1 @ ys2) @ replicate (c - length ys) Raw),
                env := e'\<rparr>) \<and>
        list_all2 (copy_assign_result T) (take (length xs) ys) ys1 \<and>
        list_all2 (copy_result T) (drop (length xs) ys) ys2) \<or>
     (\<exists>zs e'. copy_assign_distinct T rhs this w =
          Throws elem_exn
            (this, w\<lparr>heap := (heap w)(a \<mapsto> map Live zs @ replicate (c - length xs) Raw),
                     env := e'\<rparr>) \<and>
        length zs = length xs \<and>
        (throwing_copy_assign T \<or> length xs < length ys \<and> throwing_copy_ctor T))"
proof (cases "length ys < length xs")
  case True
  let ?m = "length ys" and ?n = "length xs"
  let ?S = "map Live (drop ?m xs) @ replicate (c - ?n) Raw"
  note defs = copy_assign_distinct_def RawMemory_Capacity_def on_world_def GetAddress_def
    buf sz cap rsz
  have xs: "xs = take ?m xs @ drop ?m xs" by simp
  have hb: "heap w a = Some ([] @ map Live (take ?m xs) @ ?S)"
    using ha by (subst (asm) xs) (simp del: append_take_drop_id)
  have len: "length (take ?m xs) = ?m" using True by simp
  have src': "ys = [] \<or> (rm_buffer (v_data rhs) = Ptr b (length ([] :: 'a slot list)) \<and>
      heap w b = Some ([] @ map Live ys @ R') \<and> b \<noteq> a)"
    using src by simp
  from copy_n_from [OF hb len src', of T]
  show ?thesis
  proof (elim disjE exE conjE, goal_cases)
    case (1 ys1 e1)
    let ?w1 = "w\<lparr>heap := (heap w)(a \<mapsto> [] @ map Live ys1 @ ?S), env := e1\<rparr>"
    have l1: "length ys1 = ?m" using list_all2_lengthD [OF 1(2)] by simp
    have h1: "heap ?w1 a = Some (map Live ys1 @ map Live (drop ?m xs) @ replicate (c - ?n) Raw)"
      by simp
    have rp: "replicate (?n - ?m) Raw @ replicate (c - ?n) Raw = replicate (c - ?m) (Raw :: 'a slot)"
      using True le xle by (simp add: replicate_add [symmetric])
    from destroy_n_shape [OF h1, of T]
    have d: "destroy_n T (Ptr a ?m) (?n - ?m) ?w1 =
        Returns (Ptr a ?n)
          (w\<lparr>heap := (heap w)(a \<mapsto> map Live (ys1 @ []) @ replicate (c - ?m) Raw),
             env := foldl (\<lambda>e x. dtor T x e) e1 (drop ?m xs)\<rparr>)"
      using True l1 rp by simp
    have "copy_assign_distinct T rhs this w =
        Returns ()
          (this\<lparr>v_size := ?m\<rparr>,
           w\<lparr>heap := (heap w)(a \<mapsto> map Live (ys1 @ []) @ replicate (c - ?m) Raw),
              env := foldl (\<lambda>e x. dtor T x e) e1 (drop ?m xs)\<rparr>)"
      using 1(1) d True le by (simp add: defs)
    moreover have "list_all2 (copy_assign_result T) (take ?n ys) ys1" using 1(2) True by simp
    moreover have "list_all2 (copy_result T) (drop ?n ys) []" using True by simp
    ultimately show ?case by blast
  next
    case (2 zs e1)
    have "copy_assign_distinct T rhs this w =
        Throws elem_exn
          (this, w\<lparr>heap := (heap w)(a \<mapsto> map Live (zs @ drop ?m xs) @ replicate (c - ?n) Raw),
                   env := e1\<rparr>)"
      using 2(1) True le by (simp add: defs)
    moreover have "length (zs @ drop ?m xs) = ?n" using 2(2) True by simp
    ultimately show ?case using 2(4) by blast
  qed
next
  case False
  let ?m = "length ys" and ?n = "length xs"
  note defs = copy_assign_distinct_def RawMemory_Capacity_def on_world_def GetAddress_def
    buf sz cap rsz
  have nm: "?n \<le> ?m" using False by simp
  have hb: "heap w a = Some ([] @ map Live xs @ replicate (c - ?n) Raw)" using ha by simp
  have len: "length xs = length (take ?n ys)" using nm by simp
  have ys: "map Live ys = map Live (take ?n ys) @ map Live (drop ?n ys)"
    by (simp add: map_append [symmetric])
  have src1: "take ?n ys = [] \<or>
     (rm_buffer (v_data rhs) = Ptr b (length ([] :: 'a slot list)) \<and>
      heap w b = Some ([] @ map Live (take ?n ys) @ (map Live (drop ?n ys) @ R')) \<and> b \<noteq> a)"
  proof (cases "ys = []")
    case True
    then show ?thesis by simp
  next
    case False
    with src have "rm_buffer (v_data rhs) = Ptr b 0" "heap w b = Some (map Live ys @ R')" "b \<noteq> a"
      by simp_all
    then show ?thesis using ys by simp
  qed
  from copy_n_from [OF hb len src1, of T]
  show ?thesis
  proof (elim disjE exE conjE, goal_cases)
    case (2 zs e1)
    have "copy_assign_distinct T rhs this w =
        Throws elem_exn
          (this, w\<lparr>heap := (heap w)(a \<mapsto> map Live zs @ replicate (c - ?n) Raw), env := e1\<rparr>)"
      using 2(1) False le nm by (simp add: defs)
    moreover have "length zs = ?n" using 2(2) nm by simp
    ultimately show ?case using 2(4) by blast
  next
    case (1 ys1 e1)
    let ?w1 = "w\<lparr>heap := (heap w)(a \<mapsto> map Live ys1 @ replicate (c - ?n) Raw), env := e1\<rparr>"
    have c1: "copy_n T (rm_buffer (v_data rhs)) ?n (Ptr a 0) w = Returns (Ptr a ?n) ?w1"
      using 1(1) nm by simp
    have l1: "length ys1 = ?n" using list_all2_lengthD [OF 1(2)] nm by simp
    have rp: "replicate (c - ?n) Raw =
        replicate (length (drop ?n ys)) Raw @ replicate (c - ?m) (Raw :: 'a slot)"
      using nm le by (simp add: replicate_add [symmetric])
    have h1: "heap ?w1 a =
        Some (map Live ys1 @ replicate (length (drop ?n ys)) Raw @ replicate (c - ?m) Raw)"
      using rp by simp
    have src2: "drop ?n ys = [] \<or>
       (ptr_add (rm_buffer (v_data rhs)) ?n = Ptr b (length (map Live (take ?n ys))) \<and>
        heap ?w1 b = Some (map Live (take ?n ys) @ map Live (drop ?n ys) @ R') \<and> b \<noteq> a)"
    proof (cases "ys = []")
      case True
      then show ?thesis by simp
    next
      case False
      with src have "rm_buffer (v_data rhs) = Ptr b 0" "heap w b = Some (map Live ys @ R')" "b \<noteq> a"
        by simp_all
      then show ?thesis using nm ys by simp
    qed
    from uninitialized_copy_n_from [OF h1 src2, of T]
    show ?case
    proof (elim disjE exE conjE, goal_cases)
      case (1 ys2 e2)
      have u: "uninitialized_copy_n T (ptr_add (rm_buffer (v_data rhs)) ?n) (?m - ?n) (Ptr a ?n) ?w1 =
          Returns (Ptr a ?m)
            (w\<lparr>heap := (heap w)(a \<mapsto> map Live (ys1 @ ys2) @ replicate (c - ?m) Raw), env := e2\<rparr>)"
        using 1(1) l1 nm by simp
      have "copy_assign_distinct T rhs this w =
          Returns ()
            (this\<lparr>v_size := ?m\<rparr>,
             w\<lparr>heap := (heap w)(a \<mapsto> map Live (ys1 @ ys2) @ replicate (c - ?m) Raw), env := e2\<rparr>)"
        using c1 u False le by (simp add: defs)
      then show ?case using \<open>list_all2 (copy_assign_result T) (take ?n ys) ys1\<close> 1(2) by blast
    next
      case (2 e2)
      have u: "uninitialized_copy_n T (ptr_add (rm_buffer (v_data rhs)) ?n) (?m - ?n) (Ptr a ?n) ?w1 =
          Throws elem_exn
            (w\<lparr>heap := (heap w)(a \<mapsto> map Live ys1 @ replicate (c - ?n) Raw), env := e2\<rparr>)"
        using 2(1) l1 nm by simp
      have "copy_assign_distinct T rhs this w =
          Throws elem_exn
            (this, w\<lparr>heap := (heap w)(a \<mapsto> map Live ys1 @ replicate (c - ?n) Raw), env := e2\<rparr>)"
        using c1 u False le by (simp add: defs)
      moreover have "?n < ?m" using 2(2) nm by (cases "?n = ?m") simp_all
      ultimately show ?case using l1 2(3) by blast
    qed
  qed
qed

lemma copy_assign_Null_empty:
  assumes "rm_buffer (v_data this) = Null" and "v_size this = 0" and "v_size rhs = 0"
  shows "copy_assign_distinct T rhs this w = Returns () (this, w)"
  using assms
  by (simp add: copy_assign_distinct_def RawMemory_Capacity_def on_world_def GetAddress_def)

lemma elems_block_cong:
  "(\<And>a i. rm_buffer (v_data v) = Ptr a i \<Longrightarrow> heap w' a = heap w a) \<Longrightarrow> elems v w' = elems v w"
  by (simp add: elems_def split: ptr.splits)

lemma wf_vec_block_cong:
  assumes "\<And>a i. rm_buffer (v_data v) = Ptr a i \<Longrightarrow> heap w' a = heap w a"
  shows "wf_vec v w' = wf_vec v w"
  using elems_block_cong [of v w' w] assms by (simp add: wf_vec_def split: ptr.splits)

lemma copy_assign_distinct_correct:
  assumes wfw: "wf_world w" and wfl: "wf_vec this w" and wfr: "wf_vec rhs w"
    and sep: "separate this rhs" and reg: "regular T"
  shows
    "(\<exists>this' w'. copy_assign_distinct T rhs this w = Returns () (this', w') \<and>
        wf_vec this' w' \<and> wf_vec rhs w' \<and>
        elems this' w' = elems rhs w \<and> elems rhs w' = elems rhs w \<and> separate this' rhs \<and>
        (if Capacity this < Size rhs
         then Capacity this' = Size rhs \<and> slot_at w' (Vector_begin this) = None
         else v_data this' = v_data this)) \<or>
     (\<exists>e w'. copy_assign_distinct T rhs this w = Throws e (this, w') \<and> wf_vec this w' \<and>
        (if Capacity this < Size rhs
         then heap w' = heap w \<and> (avail w < Size rhs \<or> throwing_copy_ctor T)
         else throwing_copy_assign T \<or> Size this < Size rhs \<and> throwing_copy_ctor T))"
proof -
  let ?xs = "elems this w" and ?ys = "elems rhs w"
  let ?n = "length ?xs" and ?m = "length ?ys"
  let ?c = "rm_capacity (v_data this)"
  let ?nb = "next_addr w"
  have C: "Capacity this = ?c" by (simp add: Capacity_def RawMemory_Capacity_def)
  have fresh: "heap w ?nb = None" using wfw by (simp add: wf_world_def)
  have rsz: "v_size rhs = ?m" using wfr by (simp add: wf_vec_def elems_def split: ptr.splits)
  have S: "Size rhs = ?m" using rsz by (simp add: Size_def)
  have sz: "v_size this = ?n" using wfl by (simp add: wf_vec_def elems_def split: ptr.splits)
  have Sl: "Size this = ?n" using sz by (simp add: Size_def)
  have src: "?ys = [] \<or>
      (\<exists>b R'. rm_buffer (v_data rhs) = Ptr b 0 \<and> heap w b = Some (map Live ?ys @ R') \<and>
         (\<forall>a i. rm_buffer (v_data this) = Ptr a i \<longrightarrow> b \<noteq> a))"
  proof (cases "rm_buffer (v_data rhs)")
    case Null
    then show ?thesis by (simp add: elems_Null)
  next
    case (Ptr b j)
    note wf = wf_vec_PtrD [OF wfr Ptr]
    have "\<forall>a i. rm_buffer (v_data this) = Ptr a i \<longrightarrow> b \<noteq> a"
      using sep Ptr by (auto simp add: separate_def)
    then show ?thesis using Ptr wf(1,4) by blast
  qed
  have rhs_same: "wf_vec rhs w' \<and> elems rhs w' = ?ys"
    if "\<And>b j. rm_buffer (v_data rhs) = Ptr b j \<Longrightarrow> heap w' b = heap w b" for w'
    using wf_vec_block_cong [of rhs w' w] elems_block_cong [of rhs w' w] that wfr by simp
  show ?thesis
  proof (cases "?c < ?m")
    case gt: True
    then have "?ys \<noteq> []" by auto
    with src obtain b R' where rbuf: "rm_buffer (v_data rhs) = Ptr b 0"
      and hb: "heap w b = Some (map Live ?ys @ R')"
      and ab: "\<forall>a i. rm_buffer (v_data this) = Ptr a i \<longrightarrow> b \<noteq> a" by blast
    have bn: "b \<noteq> ?nb" using hb fresh by auto
    let ?this' = "\<lparr>v_data = \<lparr>rm_buffer = Ptr ?nb 0, rm_capacity = ?m\<rparr>, v_size = ?m\<rparr>"
    have post: "wf_vec ?this' w' \<and> wf_vec rhs w' \<and> elems ?this' w' = ?ys \<and>
        elems rhs w' = ?ys \<and> separate ?this' rhs \<and> Capacity ?this' = Size rhs"
      if hn: "heap w' ?nb = Some (map Live ys')" and hb': "heap w' b = heap w b"
        and rel: "list_all2 (copy_result T) ?ys ys'" for w' ys'
    proof -
      have ys': "ys' = ?ys" by (rule regular_copy [OF reg rel])
      have hn': "heap w' ?nb = Some (map Live ?ys @ replicate 0 Raw)" using hn ys' by simp
      have "wf_vec ?this' w'" by (rule wf_vecI [OF _ hn']) simp_all
      moreover have "elems ?this' w' = ?ys" by (rule elems_shape [OF _ hn']) simp_all
      moreover have "wf_vec rhs w' \<and> elems rhs w' = ?ys"
        using rhs_same [of w'] hb' rbuf by simp
      moreover have "separate ?this' rhs" using bn rbuf by (auto simp add: separate_def)
      moreover have "Capacity ?this' = Size rhs"
        using S by (simp add: Capacity_def RawMemory_Capacity_def)
      ultimately show ?thesis by blast
    qed
    show ?thesis
    proof (cases "rm_buffer (v_data this)")
      case Null
      note wf = wf_vec_NullD [OF wfl Null]
      have beg: "Vector_begin this = Null" by (simp add: Vector_begin_def GetAddress_def Null)
      from copy_assign_realloc_Null [OF wfw Null wf(2) rbuf hb rsz gt, of T]
      show ?thesis
      proof (elim disjE exE conjE, goal_cases)
        case 1
        then show ?case using gt wfl unfolding C S by auto
      next
        case (2 e')
        have "wf_vec this (w\<lparr>next_addr := Suc ?nb, env := e'\<rparr>)"
          using wfl by (subst wf_vec_heap_cong [of _ w]) simp_all
        then show ?case using 2 gt unfolding C S by auto
      next
        case (3 ys' e')
        let ?w' = "w\<lparr>heap := (heap w)(?nb \<mapsto> map Live ys'), next_addr := Suc ?nb,
                     avail := avail w - ?m, env := e'\<rparr>"
        have "heap ?w' ?nb = Some (map Live ys')" "heap ?w' b = heap w b" using bn by simp_all
        from post [OF this 3(3)] show ?case
          using 3(2) gt unfolding C S by (auto simp add: beg slot_at_def)
      qed
    next
      case (Ptr a i)
      note wf = wf_vec_PtrD [OF wfl Ptr]
      have buf: "rm_buffer (v_data this) = Ptr a 0" using Ptr wf(1) by simp
      have ba: "b \<noteq> a" using ab buf by blast
      have beg: "Vector_begin this = Ptr a 0" by (simp add: Vector_begin_def GetAddress_def buf)
      from copy_assign_realloc_Ptr [OF wfw buf wf(4) sz rbuf hb rsz gt, of T]
      show ?thesis
      proof (elim disjE exE conjE, goal_cases)
        case 1
        then show ?case using gt wfl unfolding C S by auto
      next
        case (2 e')
        have "wf_vec this (w\<lparr>next_addr := Suc ?nb, env := e'\<rparr>)"
          using wfl by (subst wf_vec_heap_cong [of _ w]) simp_all
        then show ?case using 2 gt unfolding C S by auto
      next
        case (3 ys' e')
        let ?w' = "w\<lparr>heap := (heap w)(a := None, ?nb \<mapsto> map Live ys'), next_addr := Suc ?nb,
                     avail := avail w - ?m +
                       (?n + length (replicate (?c - v_size this) (Raw :: 'a slot))),
                     env := e'\<rparr>"
        have an: "a \<noteq> ?nb" using wf(4) fresh by auto
        have "heap ?w' ?nb = Some (map Live ys')" "heap ?w' b = heap w b" using bn ba by simp_all
        from post [OF this 3(3)] show ?case
          using 3(2) gt an unfolding C S by (auto simp add: beg slot_at_def)
      qed
    qed
  next
    case False
    then have le: "?m \<le> ?c" by simp
    show ?thesis
    proof (cases "rm_buffer (v_data this)")
      case Null
      note wf = wf_vec_NullD [OF wfl Null]
      have m0: "v_size rhs = 0" using le wf(1) rsz by simp
      then have ys: "?ys = []" using rsz by simp
      have "elems this w = []" by (rule elems_Null [OF Null])
      moreover have "separate this rhs" by (rule sep)
      ultimately show ?thesis
        using copy_assign_Null_empty [OF Null wf(2) m0, of T w] wfl wfr False ys
        unfolding C S by auto
    next
      case (Ptr a i)
      note wf = wf_vec_PtrD [OF wfl Ptr]
      have buf: "rm_buffer (v_data this) = Ptr a 0" using Ptr wf(1) by simp
      have xle: "?n \<le> ?c" using wf(2) sz by simp
      have ha: "heap w a = Some (map Live ?xs @ replicate (?c - ?n) Raw)" using wf(4) sz by simp
      obtain b R' where src': "?ys = [] \<or>
          (rm_buffer (v_data rhs) = Ptr b 0 \<and> heap w b = Some (map Live ?ys @ R') \<and> b \<noteq> a)"
        using src buf by blast
      have rb: "b' \<noteq> a" if "rm_buffer (v_data rhs) = Ptr b' j" for b' j
        using sep that buf by (auto simp add: separate_def)
      from copy_assign_inplace [OF buf ha sz refl xle rsz le src', of T]
      show ?thesis
      proof (elim disjE exE conjE, goal_cases)
        case (1 ys1 ys2 e')
        let ?this' = "this\<lparr>v_size := ?m\<rparr>"
        let ?w' = "w\<lparr>heap := (heap w)(a \<mapsto> map Live (ys1 @ ys2) @ replicate (?c - ?m) Raw),
                     env := e'\<rparr>"
        have y1: "ys1 = take ?n ?ys" by (rule regular_copy_assign [OF reg 1(2)])
        have y2: "ys2 = drop ?n ?ys" by (rule regular_copy [OF reg 1(3)])
        have hw: "heap ?w' a = Some (map Live ?ys @ replicate (?c - ?m) Raw)"
          by (simp add: y1 y2)
        have "wf_vec ?this' ?w'" using le by (intro wf_vecI [OF _ hw]) (simp_all add: buf)
        moreover have "elems ?this' ?w' = ?ys" by (intro elems_shape [OF _ hw]) (simp_all add: buf)
        moreover have "wf_vec rhs ?w' \<and> elems rhs ?w' = ?ys"
          using rb by (intro rhs_same) simp
        moreover have "separate ?this' rhs" using sep by (simp add: separate_def)
        moreover have "v_data ?this' = v_data this" by simp
        ultimately show ?case using 1(1) False unfolding C S by auto
      next
        case (2 zs e')
        let ?w' = "w\<lparr>heap := (heap w)(a \<mapsto> map Live zs @ replicate (?c - ?n) Raw), env := e'\<rparr>"
        have hw: "heap ?w' a = Some (map Live zs @ replicate (?c - ?n) Raw)" by simp
        have "wf_vec this ?w'"
          using xle 2(2) by (intro wf_vecI [OF buf hw]) (simp_all add: sz)
        then show ?case using 2(1,3) False unfolding C S Sl by auto
      next
        case (3 zs e')
        let ?w' = "w\<lparr>heap := (heap w)(a \<mapsto> map Live zs @ replicate (?c - ?n) Raw), env := e'\<rparr>"
        have hw: "heap ?w' a = Some (map Live zs @ replicate (?c - ?n) Raw)" by simp
        have "wf_vec this ?w'"
          using xle 3(2) by (intro wf_vecI [OF buf hw]) (simp_all add: sz)
        then show ?case using 3(1,3,4) False unfolding C S Sl by auto
      qed
    qed
  qed
qed

lemma construct_at_Null [simp]: "construct_at Null mk w = Undefined"
  by (simp add: construct_at_def slot_at_def)

lemma EmplaceBack_stale:
  assumes "rm_buffer (v_data this) = Null" and "v_size this < rm_capacity (v_data this)"
  shows "EmplaceBack T mk this w = Undefined"
  using assms
  by (simp add: EmplaceBack_def RawMemory_Capacity_def GetAddress_def on_world_def)

lemma relocated_length: "relocated T xs ys \<Longrightarrow> length ys = length xs"
  by (auto simp add: relocated_def dest!: list_all2_lengthD split: if_splits)

lemma value_construct_Null [simp]:
  "uninitialized_value_construct_n T Null (Suc m) w = Undefined"
  by simp

lemma copy_construct_at_Null [simp]: "copy_construct_at T Null q w = Undefined"
  by (simp add: copy_construct_at_def split: option.splits)

lemma copy_assign_stale:
  assumes "rm_buffer (v_data this) = Null" and "v_size this = 0"
    and "v_size rhs \<le> rm_capacity (v_data this)" and "0 < v_size rhs"
  shows "copy_assign_distinct T rhs this w = Undefined"
proof -
  obtain m where m: "v_size rhs = Suc m" using assms(4) by (cases "v_size rhs") simp_all
  show ?thesis
    using assms(1-3)
    by (simp add: copy_assign_distinct_def RawMemory_Capacity_def on_world_def GetAddress_def m
        discard_def)
qed

lemma Vector_move_ctor_eq:
  "Vector_move_ctor v =
     (v, \<lparr>v_data = \<lparr>rm_buffer = Null, rm_capacity = rm_capacity (v_data v)\<rparr>, v_size = 0\<rparr>)"
  by (simp add: Vector_move_ctor_def RawMemory_move_ctor_def RawMemory_move_assign_def
      RawMemory_default_def Let_def)

lemmas run_defs = after_def call_def construct_def destroy_def copy_construction_def
  move_construction_def swap_objects_def move_assignment_def at_position_def start_def
  empty_world_def Vector_default_def RawMemory_default_def Reserve_def Resize_def PushBack_def
  PushBack_move_def Insert_def Insert_move_def discard_def Vector_move_ctor_eq Size_def
  Capacity_def invariant_def wf_vec_def elems_def move_assign_throwing_type_def










lemma value_construct_outside:
  assumes "slot_at w p = None" and "0 < m"
  shows "uninitialized_value_construct_n T p m w = Undefined"
proof -
  obtain k where "m = Suc k" using assms(2) by (cases m) simp_all
  then show ?thesis using assms(1) by (simp add: construct_at_def)
qed

lemma Resize_beyond_size_t_general:
  assumes n: "n = 2 ^ 62 + 1"
  shows "Resize plain_type n (vec_of [7] (Suc 0)) (world_of [7] (Suc 0) 0) = Undefined"
proof -
  let ?v = "vec_of [7] (Suc 0)" and ?w = "world_of [7] (Suc 0) 0"
  let ?nd = "\<lparr>rm_buffer = Ptr (Suc 0) 0, rm_capacity = n\<rparr>"
  let ?w1 = "?w\<lparr>heap := (heap ?w)(Suc 0 \<mapsto> [Raw]), next_addr := 2, avail := 99\<rparr>"
  let ?w2 = "?w\<lparr>heap := (heap ?w)(0 := None, Suc 0 \<mapsto> [Live 7]), next_addr := 2, avail := 100\<rparr>"
  have m: "size_t_mul n 4 = 4" by (simp add: size_t_mul_def n)
  have n1: "n \<noteq> Suc 0" "\<not> n \<le> Suc 0" "\<not> n < Suc 0" "n \<noteq> 0" "0 < n - Suc 0"
    by (simp_all add: n)
  have sz: "v_size ?v = Suc 0" and cap: "rm_capacity (v_data ?v) = Suc 0"
    and buf: "rm_buffer (v_data ?v) = Ptr 0 0"
    by (simp_all add: vec_of_def)
  have alloc: "RawMemory_ctor n ?w = Returns ?nd ?w1"
    using n1 by (simp add: RawMemory_ctor_def Allocate_def operator_new_def Let_def world_of_def m)
  have gt: "rm_capacity (v_data ?v) < n" using n1 by (simp add: cap)
  have re: "ReallocateData plain_type ?nd ?v ?w1 =
      Returns (v_data ?v) (?v\<lparr>v_data := ?nd\<rparr>,
        ?w\<lparr>heap := (heap ?w)(0 \<mapsto> [Raw], Suc 0 \<mapsto> [Live 7]), next_addr := 2, avail := 99\<rparr>)"
    by (simp add: ReallocateData_def plain_type_def test_type_def counted_def GetAddress_def
        move_construct_at_def deref_def slot_at_def put_slot_def world_of_def destroy_at_def
        RawMemory_Swap_eq vec_of_def on_world_def discard_def fun_upd_twist)
  have res: "Reserve plain_type n ?v ?w = Returns () (?v\<lparr>v_data := ?nd\<rparr>, ?w2)"
    unfolding Reserve_grow_unfold [OF gt alloc] re
    by (simp add: on_world_def RawMemory_dtor_def Deallocate_def operator_delete_def buf
        world_of_def fun_upd_twist)
  have out: "slot_at ?w2 (Ptr (Suc 0) (Suc 0)) = None" by (simp add: slot_at_def)
  show ?thesis
    using n1
    by (simp add: Resize_def sz res Vector_end_def GetAddress_def on_world_def
        discard_def value_construct_outside [OF out])
qed

section \<open>Well-formed vectors\<close>

text \<open>
  Resizing a well-formed vector of a regular element type to a size \<open>n\<close> of which the
  bytes can be counted in a \<^verbatim>\<open>size_t\<close>. To a smaller size \<open>n\<close>:
  the call returns, the size is \<open>n\<close>, the first \<open>n\<close> elements are as they were and the
  slots behind them are raw again. To a larger size \<open>n\<close>: unless the allocation, a
  relocation or a value-initialisation throws, the call returns, the size is \<open>n\<close>, the
  old elements are as they were and each new element is a value-initialised object.
\<close>

theorem Resize_well_formed:
  assumes "wf_world w" and "wf_vec this w" and "regular T" and "n * sizeof_T w < 2 ^ 64"
  shows "(n < Size this \<longrightarrow>
            (\<exists>w'. Resize T n this w = Returns () (this\<lparr>v_size := n\<rparr>, w') \<and>
               wf_vec (this\<lparr>v_size := n\<rparr>) w' \<and>
               elems (this\<lparr>v_size := n\<rparr>) w' = take n (elems this w))) \<and>
         (Size this < n \<longrightarrow>
            (\<exists>e s. Resize T n this w = Throws e s \<and>
               ((e = bad_alloc \<and> avail w < n) \<or> throwing_relocation T \<or> throwing_value_init T)) \<or>
            (\<exists>this' w' ds. Resize T n this w = Returns () (this', w') \<and> Size this' = n \<and>
               wf_vec this' w' \<and> elems this' w' = elems this w @ ds \<and>
               length ds = n - Size this \<and> list_all (value_init_result T) ds))"
proof (cases "rm_buffer (v_data this)")
  case Null
  note wf = wf_vec_NullD [OF assms(2) Null]
  have el: "elems this w = []" by (rule elems_Null [OF Null])
  have shrink: "\<not> n < Size this" using wf by (simp add: Size_def)
  have grow: ?thesis if lt: "Size this < n"
  proof (cases "avail w < n")
    case True
    have "rm_capacity (v_data this) < n" using lt wf by (simp add: Size_def)
    from Reserve_bad_alloc [OF this True wf_world_sizeof [OF assms(1)] assms(4), of T]
    have "Resize T n this w = Throws bad_alloc (this, w)"
      using lt by (intro Resize_grow_Reserve_Throws) (simp_all add: Size_def)
    then show ?thesis using True shrink by blast
  next
    case False
    have c: "rm_capacity (v_data this) < n" using lt wf by (simp add: Size_def)
    let ?this1 = "this\<lparr>v_data := \<lparr>rm_buffer = Ptr (next_addr w) 0, rm_capacity = n\<rparr>\<rparr>"
    let ?w1 = "w\<lparr>heap := (heap w)(next_addr w \<mapsto> replicate n Raw), next_addr := Suc (next_addr w),
           avail := avail w - n\<rparr>"
    note res = Reserve_Null [OF Null wf(2) c False wf_world_sizeof [OF assms(1)] assms(4), of T]
    have ha: "heap ?w1 (next_addr w) = Some (map Live [] @ replicate n Raw)" by simp
    from Resize_grow_tail [OF _ res _ _ ha] lt wf
    have "(\<exists>e s. Resize T n this w = Throws e s \<and> throwing_value_init T) \<or>
         (\<exists>w' ds. Resize T n this w = Returns () (?this1\<lparr>v_size := n\<rparr>, w') \<and>
            wf_vec (?this1\<lparr>v_size := n\<rparr>) w' \<and> elems (?this1\<lparr>v_size := n\<rparr>) w' = [] @ ds \<and>
            length ds = n - length ([] :: 'a list) \<and> list_all (value_init_result T) ds)"
      by (simp add: Size_def)
    then show ?thesis
    proof (elim disjE exE conjE, goal_cases)
      case (1 e s)
      then show ?case using shrink by blast
    next
      case (2 w' ds)
      have "Size (?this1\<lparr>v_size := n\<rparr>) = n" by (simp add: Size_def)
      moreover have "length ds = n - Size this" using 2(4) wf(2) by (simp add: Size_def)
      moreover have "elems (?this1\<lparr>v_size := n\<rparr>) w' = elems this w @ ds" using 2(3) el by simp
      ultimately show ?case using 2(1,2,5) shrink by blast
    qed
  qed
  show ?thesis using shrink grow by blast
next
  case (Ptr a i)
  note wf = wf_vec_PtrD [OF assms(2) Ptr]
  let ?xs = "elems this w"
  let ?r = "rm_capacity (v_data this) - v_size this"
  have buf: "rm_buffer (v_data this) = Ptr a 0" using Ptr wf(1) by simp
  have sz: "v_size this = length ?xs" using wf(3) by simp
  have shrink: "\<exists>w'. Resize T n this w = Returns () (this\<lparr>v_size := n\<rparr>, w') \<and>
               wf_vec (this\<lparr>v_size := n\<rparr>) w' \<and>
               elems (this\<lparr>v_size := n\<rparr>) w' = take n ?xs" if lt: "n < Size this"
  proof -
    have n: "n < length ?xs" using lt sz by (simp add: Size_def)
    let ?w' = "w\<lparr>heap := (heap w)(a \<mapsto> map Live (take n ?xs) @
                  replicate (length ?xs - n) Raw @ replicate ?r Raw),
           env := foldl (\<lambda>e x. dtor T x e) (env w) (drop n ?xs)\<rparr>"
    have e: "Resize T n this w = Returns () (this\<lparr>v_size := n\<rparr>, ?w')"
      by (rule Resize_shrink [OF buf wf(4) sz n])
    have hw: "heap ?w' a = Some (map Live (take n ?xs) @ replicate (length ?xs - n + ?r) Raw)"
      by (simp add: replicate_add)
    have "wf_vec (this\<lparr>v_size := n\<rparr>) ?w'"
      using n wf(2) sz by (intro wf_vecI [OF _ hw]) (simp_all add: buf)
    moreover have "elems (this\<lparr>v_size := n\<rparr>) ?w' = take n ?xs"
      using n by (intro elems_shape [OF _ hw]) (simp_all add: buf)
    ultimately show ?thesis using e by blast
  qed
  have grow: "(\<exists>e s. Resize T n this w = Throws e s \<and>
               ((e = bad_alloc \<and> avail w < n) \<or> throwing_relocation T \<or> throwing_value_init T)) \<or>
            (\<exists>this' w' ds. Resize T n this w = Returns () (this', w') \<and> Size this' = n \<and>
               wf_vec this' w' \<and> elems this' w' = ?xs @ ds \<and>
               length ds = n - Size this \<and> list_all (value_init_result T) ds)"
    if lt: "Size this < n"
  proof -
    have lt': "v_size this < n" using lt by (simp add: Size_def)
    have post: ?thesis
      if res: "Reserve T n this w = Returns () (this1, w1)"
        and sz1: "v_size this1 = v_size this"
        and buf1: "rm_buffer (v_data this1) = Ptr b 0"
        and hb: "heap w1 b = Some (map Live ?xs @ replicate r Raw)"
        and cap1: "rm_capacity (v_data this1) = length ?xs + r"
        and r: "n \<le> length ?xs + r"
      for this1 w1 b r
    proof -
      from Resize_grow_tail [OF lt' res sz1 buf1 hb sz cap1 r]
      show ?thesis
      proof (elim disjE exE conjE, goal_cases)
        case (1 e s)
        then show ?case by blast
      next
        case (2 w' ds)
        have "Size (this1\<lparr>v_size := n\<rparr>) = n" by (simp add: Size_def)
        moreover have "length ds = n - Size this" using 2(4) sz by (simp add: Size_def)
        ultimately show ?case using 2(1,2,3,5) by blast
      qed
    qed
    show ?thesis
    proof (cases "n \<le> rm_capacity (v_data this)")
      case True
      have "length ?xs + ?r = rm_capacity (v_data this)" using wf(2) sz by simp
      then show ?thesis
        using post [OF Reserve_noop [OF True] refl buf wf(4)] True by simp
    next
      case False
      then have gt: "rm_capacity (v_data this) < n" by simp
      show ?thesis
      proof (cases "avail w < n")
        case True
        from Reserve_bad_alloc [OF gt True wf_world_sizeof [OF assms(1)] assms(4), of T]
        have "Resize T n this w = Throws bad_alloc (this, w)"
          using lt' by (intro Resize_grow_Reserve_Throws)
        then show ?thesis using True by blast
      next
        case False
        have le: "length ?xs \<le> n" using lt' sz by simp
        from Reserve_Ptr [OF assms(1) buf wf(4) sz gt le False assms(4), of T]
        show ?thesis
        proof (elim disjE exE conjE, goal_cases)
          case (1 rs e')
          from Resize_grow_Reserve_Throws [OF lt' 1(1)] 1(4)
          show ?case by blast
        next
          case (2 ys e')
          have ys: "ys = ?xs" by (rule regular_relocated [OF assms(3) 2(2)])
          let ?this1 = "this\<lparr>v_data := \<lparr>rm_buffer = Ptr (next_addr w) 0, rm_capacity = n\<rparr>\<rparr>"
          let ?w1 = "w\<lparr>heap := (heap w)(a := None,
                      next_addr w \<mapsto> map Live ys @ replicate (n - length ?xs) Raw),
                  next_addr := Suc (next_addr w),
                  avail := avail w - n + (length ?xs + length (replicate ?r (Raw :: 'a slot))),
                  env := e'\<rparr>"
          have res: "Reserve T n this w = Returns () (?this1, ?w1)" using 2(1) .
          have hb: "heap ?w1 (next_addr w) = Some (map Live ?xs @ replicate (n - length ?xs) Raw)"
            using ys by simp
          show ?case
            by (rule post [OF res _ _ hb]) (use le in simp_all)
        qed
      qed
    qed
  qed
  show ?thesis using shrink grow by blast
qed

theorem Resize_well_formed_example:
  "wf_world (world_of [1, 2, 3] 4 0) \<and> wf_vec (vec_of [1, 2, 3] 4) (world_of [1, 2, 3] 4 0) \<and>
   regular plain_type \<and>
   1 < Size (vec_of [1, 2, 3] 4) \<and>
   (\<exists>w'. Resize plain_type 1 (vec_of [1, 2, 3] 4) (world_of [1, 2, 3] 4 0) =
        Returns () ((vec_of [1, 2, 3] 4)\<lparr>v_size := 1\<rparr>, w') \<and>
      elems ((vec_of [1, 2, 3] 4)\<lparr>v_size := 1\<rparr>) w' = [1]) \<and>
   Size (vec_of [1, 2, 3] 4) < 6 \<and>
   (\<exists>this' w'. Resize plain_type 6 (vec_of [1, 2, 3] 4) (world_of [1, 2, 3] 4 0) =
        Returns () (this', w') \<and>
      Size this' = 6 \<and> elems this' w' = [1, 2, 3, 0, 0, 0])"
proof -
  let ?v = "vec_of [1, 2, 3] 4" and ?w = "world_of [1, 2, 3] 4 0"
  have h: "wf_world ?w" "wf_vec ?v ?w" "regular plain_type"
  proof -
    show "wf_world ?w" by (rule wf_world_of) simp_all
    show "wf_vec ?v ?w" by (rule wf_vec_of) simp
    show "regular plain_type" by (simp add: plain_type_def regular_test_type)
  qed
  have f: "1 * sizeof_T ?w < 2 ^ 64" "6 * sizeof_T ?w < 2 ^ 64" by (simp_all add: world_of_def)
  have s: "Size ?v = 3" by (simp add: Size_def vec_of_def)
  have av: "\<not> avail ?w < 6" by (simp add: world_of_def)
  from Resize_well_formed [OF h f(1)] s
  obtain w1 where shrink: "Resize plain_type 1 ?v ?w = Returns () (?v\<lparr>v_size := 1\<rparr>, w1)"
    "elems (?v\<lparr>v_size := 1\<rparr>) w1 = take 1 (elems ?v ?w)"
    by auto
  from Resize_well_formed [OF h f(2)] s av plain_type_nothrow(1,6)
  obtain this' w2 ds where grow: "Resize plain_type 6 ?v ?w = Returns () (this', w2)"
    "Size this' = 6" "elems this' w2 = elems ?v ?w @ ds" "length ds = 6 - Size ?v"
    "list_all (value_init_result plain_type) ds"
    by auto
  from grow(5) have "list_all (\<lambda>y. y = 0) ds"
    by (auto simp add: list_all_iff dest: plain_type_value_init)
  from list_all_const [OF this] grow(4) s have "ds = [0, 0, 0]"
    by (simp add: eval_nat_numeral)
  with grow shrink s show ?thesis
    using h by (auto simp add: elems_of)
qed

text \<open>
  Inserting at a position \<open>k\<close> of a well-formed vector, \<open>k\<close> from \<open>0\<close> up to the size,
  for a regular element type, by \<^verbatim>\<open>Emplace\<close> and by either \<^verbatim>\<open>Insert\<close>. The call returns
  unless the construction of the new element, the allocation, the relocation, a move
  construction or a move assignment throws. When it returns, it returns the position \<open>k\<close>
  of the vector, which is well formed, has one element more, holds the elements that were
  before \<open>k\<close> where they were, the new element at \<open>k\<close> and the elements that were from \<open>k\<close>
  on one place further, and reading at the returned position gives the new element: the
  constructed object for \<^verbatim>\<open>Emplace\<close>, the value \<open>v\<close> for \<^verbatim>\<open>Insert\<close>.
\<close>

theorem Insert_well_formed:
  assumes "wf_world w" and "wf_vec this w" and "regular T" and "k \<le> Size this"
  shows
    "((\<exists>x. fst (mk (env w)) = Some x \<and>
         placed_at k x (elems this w) (Emplace T (ptr_add (Vector_begin this) k) mk this w)) \<or>
      (\<exists>e s. Emplace T (ptr_add (Vector_begin this) k) mk this w = Throws e s \<and>
         (fst (mk (env w)) = None \<or> avail w < grown (Capacity this) \<or>
          throwing_relocation T \<or> throwing_move_ctor T \<or> throwing_move_assign T))) \<and>
     (placed_at k v (elems this w) (Insert T (ptr_add (Vector_begin this) k) v this w) \<or>
      (\<exists>e s. Insert T (ptr_add (Vector_begin this) k) v this w = Throws e s \<and>
         (throwing_copy_ctor T \<or> avail w < grown (Capacity this) \<or>
          throwing_relocation T \<or> throwing_move_ctor T \<or> throwing_move_assign T))) \<and>
     (placed_at k v (elems this w) (Insert_move T (ptr_add (Vector_begin this) k) v this w) \<or>
      (\<exists>e s. Insert_move T (ptr_add (Vector_begin this) k) v this w = Throws e s \<and>
         (avail w < grown (Capacity this) \<or>
          throwing_relocation T \<or> throwing_move_ctor T \<or> throwing_move_assign T)))"
proof (intro conjI)
  show "(\<exists>x. fst (mk (env w)) = Some x \<and>
         placed_at k x (elems this w) (Emplace T (ptr_add (Vector_begin this) k) mk this w)) \<or>
      (\<exists>e s. Emplace T (ptr_add (Vector_begin this) k) mk this w = Throws e s \<and>
         (fst (mk (env w)) = None \<or> avail w < grown (Capacity this) \<or>
          throwing_relocation T \<or> throwing_move_ctor T \<or> throwing_move_assign T))"
    by (rule Emplace_places [OF assms])
next
  have c: "x = v" if "fst (copy_of T v (env w)) = Some x" for x
    using assms(3) that by (auto simp add: regular_def copy_result_def copy_of_def)
  have t: "throwing_copy_ctor T" if "fst (copy_of T v (env w)) = None"
    using that by (auto simp add: throwing_copy_ctor_def copy_of_def)
  from Emplace_places [OF assms, of "copy_of T v"]
  show "placed_at k v (elems this w) (Insert T (ptr_add (Vector_begin this) k) v this w) \<or>
      (\<exists>e s. Insert T (ptr_add (Vector_begin this) k) v this w = Throws e s \<and>
         (throwing_copy_ctor T \<or> avail w < grown (Capacity this) \<or>
          throwing_relocation T \<or> throwing_move_ctor T \<or> throwing_move_assign T))"
    unfolding Insert_def using c t by blast
next
  have c: "x = v" if "fst (move_of T v (env w)) = Some x" for x
  proof -
    obtain r e' where m: "move_ctor T v (env w) = (r, e')" by (cases "move_ctor T v (env w)")
    with that obtain q where "r = Some (x, q)" by (auto simp add: move_of_def)
    with m have "move_result T v x" unfolding move_result_def by (metis fst_conv)
    with assms(3) show ?thesis by (auto simp add: regular_def)
  qed
  have t: "throwing_move_ctor T" if "fst (move_of T v (env w)) = None"
  proof -
    obtain r e' where m: "move_ctor T v (env w) = (r, e')" by (cases "move_ctor T v (env w)")
    with that have "r = None" by (auto simp add: move_of_def)
    with m show ?thesis unfolding throwing_move_ctor_def by (metis fst_conv)
  qed
  from Emplace_places [OF assms, of "move_of T v"]
  show "placed_at k v (elems this w) (Insert_move T (ptr_add (Vector_begin this) k) v this w) \<or>
      (\<exists>e s. Insert_move T (ptr_add (Vector_begin this) k) v this w = Throws e s \<and>
         (avail w < grown (Capacity this) \<or>
          throwing_relocation T \<or> throwing_move_ctor T \<or> throwing_move_assign T))"
    unfolding Insert_move_def using c t by blast
qed

theorem Insert_well_formed_example:
  "wf_world (world_of [1, 2, 3] 4 0) \<and> wf_vec (vec_of [1, 2, 3] 4) (world_of [1, 2, 3] 4 0) \<and>
   regular plain_type \<and> 1 \<le> Size (vec_of [1, 2, 3] 4) \<and>
   (\<exists>this' w'. Insert plain_type (ptr_add (Vector_begin (vec_of [1, 2, 3] 4)) 1) 9
        (vec_of [1, 2, 3] 4) (world_of [1, 2, 3] 4 0) =
          Returns (ptr_add (Vector_begin this') 1) (this', w') \<and>
      Size this' = 4 \<and> elems this' w' = [1, 9, 2, 3] \<and>
      deref w' (ptr_add (Vector_begin this') 1) = Some 9)"
proof -
  let ?v = "vec_of [1, 2, 3] 4" and ?w = "world_of [1, 2, 3] 4 0"
  have h: "wf_world ?w" "wf_vec ?v ?w" "regular plain_type" "1 \<le> Size ?v"
  proof -
    show "wf_world ?w" by (rule wf_world_of) simp_all
    show "wf_vec ?v ?w" by (rule wf_vec_of) simp
    show "regular plain_type" by (simp add: plain_type_def regular_test_type)
    show "1 \<le> Size ?v" by (simp add: Size_def vec_of_def)
  qed
  have a: "\<not> avail ?w < grown (Capacity ?v)"
    by (simp add: world_of_def vec_of_def grown_def Capacity_def RawMemory_Capacity_def)
  from Insert_well_formed [OF h, of "value_of 9" 9] plain_type_nothrow a
  have "placed_at 1 9 (elems ?v ?w) (Insert plain_type (ptr_add (Vector_begin ?v) 1) 9 ?v ?w)"
    by blast
  then show ?thesis
    using h unfolding placed_at_def by (auto simp add: elems_of)
qed

text \<open>
  Copy assignment \<^verbatim>\<open>lhs = rhs\<close> between two objects of a program, both well formed
  and owning different blocks, for a regular element type. When the call returns, the
  left side is well formed and holds the elements of the right side, the right side
  is as it was, and the two own different blocks. When the size of the right side exceeds
  the capacity of the left, the left side has a new block of exactly that size and its old
  block is released, and a throw (of the allocation or of a copy construction) leaves
  the object and every block as they were. Otherwise the left side keeps its block and
  its capacity, and only a copy assignment, or when the right side is longer a copy
  construction, can throw; the left side is then still well formed.
\<close>

theorem copy_assignment_well_formed:
  assumes "objects P l = Some this" and "objects P r = Some rhs" and "l \<noteq> r"
    and "wf_world (mem P)" and "wf_vec this (mem P)" and "wf_vec rhs (mem P)"
    and "separate this rhs" and "regular T"
  shows
    "(\<exists>this' P'. copy_assignment T l r P = Returns l P' \<and>
        objects P' = (objects P)(l \<mapsto> this') \<and>
        wf_vec this' (mem P') \<and> wf_vec rhs (mem P') \<and>
        elems this' (mem P') = elems rhs (mem P) \<and> elems rhs (mem P') = elems rhs (mem P) \<and>
        separate this' rhs \<and>
        (if Capacity this < Size rhs
         then Capacity this' = Size rhs \<and> slot_at (mem P') (Vector_begin this) = None
         else v_data this' = v_data this)) \<or>
     (\<exists>e P'. copy_assignment T l r P = Throws e P' \<and> objects P' = objects P \<and>
        wf_vec this (mem P') \<and>
        (if Capacity this < Size rhs
         then heap (mem P') = heap (mem P) \<and>
              (avail (mem P) < Size rhs \<or> throwing_copy_ctor T)
         else throwing_copy_assign T \<or> Size this < Size rhs \<and> throwing_copy_ctor T))"
proof -
  have same: "(objects P)(l \<mapsto> this) = objects P" using assms(1) by (intro fun_upd_idem)
  from copy_assign_distinct_correct [OF assms(4-8)]
  show ?thesis
  proof (elim disjE exE conjE, goal_cases)
    case (1 this' w')
    let ?P' = "P\<lparr>objects := (objects P)(l \<mapsto> this'), mem := w'\<rparr>"
    have "copy_assignment T l r P = Returns l ?P'"
      using assms(1-3) 1(1) by (simp add: copy_assignment_def call_def)
    moreover have "objects ?P' = (objects P)(l \<mapsto> this')" "mem ?P' = w'" by simp_all
    ultimately show ?case using 1(2-7) by (intro disjI1 exI [of _ this'] exI [of _ ?P']) simp
  next
    case (2 e w')
    let ?P' = "P\<lparr>mem := w'\<rparr>"
    have "copy_assignment T l r P = Throws e ?P'"
      using assms(1-3) 2(1) same by (simp add: copy_assignment_def call_def)
    moreover have "objects ?P' = objects P" "mem ?P' = w'" by simp_all
    ultimately show ?case using 2(2,3) by (intro disjI2 exI [of _ e] exI [of _ ?P']) simp
  qed
qed

theorem copy_assignment_well_formed_example:
  "objects (two_vectors [1, 2] 2 [7, 8, 9] 3 0) 0 = Some (vec_of [1, 2] 2) \<and>
   wf_world (mem (two_vectors [1, 2] 2 [7, 8, 9] 3 0)) \<and>
   wf_vec (vec_of [1, 2] 2) (mem (two_vectors [1, 2] 2 [7, 8, 9] 3 0)) \<and>
   regular plain_type \<and>
   (\<exists>this' P'. copy_assignment plain_type 0 1 (two_vectors [1, 2] 2 [7, 8, 9] 3 0) = Returns 0 P' \<and>
      objects P' 0 = Some this' \<and> elems this' (mem P') = [7, 8, 9] \<and> Capacity this' = 3 \<and>
      slot_at (mem P') (Ptr 0 0) = None)"
proof -
  let ?P = "two_vectors [1, 2] 2 [7, 8, 9] 3 0"
  let ?l = "vec_of [1, 2] 2"
  let ?r = "\<lparr>v_data = \<lparr>rm_buffer = Ptr 1 0, rm_capacity = 3\<rparr>, v_size = 3\<rparr>"
  have h: "objects ?P 0 = Some ?l" "objects ?P 1 = Some ?r" "(0 :: nat) \<noteq> 1"
    "wf_world (mem ?P)" "wf_vec ?l (mem ?P)" "wf_vec ?r (mem ?P)" "separate ?l ?r"
    "regular plain_type"
    by (auto simp add: two_vectors_def vec_of_def wf_world_def wf_vec_def elems_def separate_def
        plain_type_def regular_test_type fun_upd_apply split: if_splits)
  have er: "elems ?r (mem ?P) = [7, 8, 9]" by (simp add: two_vectors_def elems_def)
  have c: "Capacity ?l < Size ?r" "Size ?r = 3" "\<not> avail (mem ?P) < 3"
    "Vector_begin ?l = Ptr 0 0"
    by (simp_all add: Capacity_def Size_def RawMemory_Capacity_def vec_of_def two_vectors_def
        Vector_begin_def GetAddress_def)
  from copy_assignment_well_formed [OF h] plain_type_nothrow(2) c
  obtain this' P' where "copy_assignment plain_type 0 1 ?P = Returns 0 P'"
    and "objects P' = (objects ?P)(0 \<mapsto> this')"
    and "elems this' (mem P') = elems ?r (mem ?P)"
    and "Capacity this' = 3" and "slot_at (mem P') (Ptr 0 0) = None"
    by auto
  then show ?thesis using h(1,4,5,8) er by auto
qed

section \<open>The claims\<close>

text \<open>
  C1 (the code departs from the claim). Move construction hands the block of the source
  to the new vector, which then holds exactly what the source held, and leaves the source
  with size 0 and no block. But the moved-from storage keeps reporting the capacity it
  had: \<^verbatim>\<open>RawMemory::operator=(RawMemory&&)\<close> exchanges \<^verbatim>\<open>buffer_\<close> for \<^verbatim>\<open>nullptr\<close> and
  only copies \<^verbatim>\<open>capacity_\<close>.
\<close>

theorem C1_moved_from_keeps_capacity:
  "fst (Vector_move_ctor other) = other \<and>
   Size (snd (Vector_move_ctor other)) = 0 \<and>
   Vector_begin (snd (Vector_move_ctor other)) = Null \<and>
   Capacity (snd (Vector_move_ctor other)) = Capacity other"
  by (cases other)
    (simp add: Vector_move_ctor_def RawMemory_move_ctor_def RawMemory_move_assign_def
      RawMemory_default_def Size_def Capacity_def RawMemory_Capacity_def Vector_begin_def
      GetAddress_def Let_def)

text \<open>
  C2. A full vector whose element type relocates by copy: an append either throws, and
  then the vector (its members, its block, its elements) and every other block are as
  before the call, or returns, and then every element was copied without a throw and the
  new element stands behind the copies. So a throw of a copy constructor during the
  append leaves the vector intact and leaves the call as an exception.
\<close>

theorem C2_full_append_strong_guarantee:
  assumes "wf_world w" and "wf_vec this w" and "Size this = Capacity this" and "\<not> uses_move T"
  shows "(\<exists>e w'. EmplaceBack T mk this w = Throws e (this, w') \<and> heap w' = heap w \<and>
            elems this w' = elems this w) \<or>
         (\<exists>p this' w' x ys. EmplaceBack T mk this w = Returns p (this', w') \<and>
            fst (mk (env w)) = Some x \<and> list_all2 (copy_result T) (elems this w) ys \<and>
            elems this' w' = ys @ [x])"
proof (cases "rm_buffer (v_data this)")
  case Null
  note wf = wf_vec_NullD [OF assms(2) Null]
  note eq = EmplaceBack_Null [OF assms(1) Null wf, of T mk]
  obtain r e1 where m: "mk (env w) = (r, e1)" by (cases "mk (env w)")
  show ?thesis
  proof (cases "avail w < 1")
    case True
    then show ?thesis using eq by simp
  next
    case False
    show ?thesis
    proof (cases r)
      case None
      moreover have "elems this (w\<lparr>next_addr := Suc (next_addr w), env := e1\<rparr>) = elems this w"
        by (rule elems_heap_cong) simp
      ultimately show ?thesis using eq False m by simp
    next
      case (Some x)
      let ?this' = "this\<lparr>v_data := \<lparr>rm_buffer = Ptr (next_addr w) 0, rm_capacity = 1\<rparr>, v_size := 1\<rparr>"
      let ?w' = "w\<lparr>heap := (heap w)(next_addr w \<mapsto> [Live x]), next_addr := Suc (next_addr w),
                avail := avail w - 1, env := e1\<rparr>"
      have "EmplaceBack T mk this w = Returns (Ptr (next_addr w) 0) (?this', ?w')"
        using eq False m Some by simp
      moreover have "elems ?this' ?w' = [] @ [x]"
        by (simp add: elems_def)
      moreover have "list_all2 (copy_result T) (elems this w) []"
        by (simp add: elems_Null [OF Null])
      moreover have "fst (mk (env w)) = Some x" using m Some by simp
      ultimately show ?thesis by blast
    qed
  qed
next
  case (Ptr a i)
  note wf = wf_vec_PtrD [OF assms(2) Ptr]
  let ?xs = "elems this w"
  have full: "rm_capacity (v_data this) = length ?xs"
    using assms(3) wf(3) by (simp add: Size_def Capacity_def RawMemory_Capacity_def)
  have buf: "rm_buffer (v_data this) = Ptr a 0" using Ptr wf(1) by simp
  have ha: "heap w a = Some (map Live ?xs)" using wf(4) full wf(3) by simp
  have sz: "v_size this = length ?xs" using wf(3) by simp
  from EmplaceBack_realloc [OF assms(1) buf ha sz full, of T mk]
  show ?thesis
  proof (elim disjE exE conjE)
    assume "EmplaceBack T mk this w = Throws bad_alloc (this, w)"
    then show ?thesis by simp
  next
    fix e'
    assume "EmplaceBack T mk this w =
        Throws elem_exn (this, w\<lparr>next_addr := Suc (next_addr w), env := e'\<rparr>)"
    moreover have "elems this (w\<lparr>next_addr := Suc (next_addr w), env := e'\<rparr>) = elems this w"
      by (rule elems_heap_cong) simp
    ultimately show ?thesis by simp
  next
    fix x rs e'
    let ?w' = "w\<lparr>heap := (heap w)(a \<mapsto> map Live rs), next_addr := Suc (next_addr w), env := e'\<rparr>"
    assume e: "EmplaceBack T mk this w = Throws elem_exn (this, ?w')"
      and rs: "\<not> uses_move T \<longrightarrow> rs = ?xs"
    have "heap ?w' = heap w" using rs assms(4) ha by (simp add: heap_upd_idem)
    moreover from this have "elems this ?w' = elems this w" by (rule elems_heap_cong)
    ultimately show ?thesis using e by blast
  next
    fix x ys e'
    let ?this' = "this\<lparr>v_data := \<lparr>rm_buffer = Ptr (next_addr w) 0, rm_capacity = grown (length ?xs)\<rparr>,
                  v_size := Suc (length ?xs)\<rparr>"
    let ?w' = "w\<lparr>heap := (heap w)(a := None,
                    next_addr w \<mapsto> map Live (ys @ [x]) @
                      replicate (grown (length ?xs) - Suc (length ?xs)) Raw),
                next_addr := Suc (next_addr w),
                avail := avail w - grown (length ?xs) + length ?xs, env := e'\<rparr>"
    assume e: "EmplaceBack T mk this w = Returns (Ptr (next_addr w) (length ?xs)) (?this', ?w')"
      and mx: "fst (mk (env w)) = Some x" and rel: "relocated T ?xs ys"
    have l: "list_all2 (copy_result T) ?xs ys" using rel assms(4) by (simp add: relocated_def)
    then have "length ys = length ?xs" by (simp add: list_all2_lengthD)
    then have "elems ?this' ?w' = ys @ [x]"
      by (intro elems_shape [where a = "next_addr w"
            and R = "replicate (grown (length ?xs) - Suc (length ?xs)) Raw"]) simp_all
    then show ?thesis using e mx l by blast
  qed
qed

theorem C2_witness:
  "wf_world (world_of [1, 2] 2 2) \<and> wf_vec (vec_of [1, 2] 2) (world_of [1, 2] 2 2) \<and>
   Size (vec_of [1, 2] 2) = Capacity (vec_of [1, 2] 2) \<and>
   \<not> uses_move copy_throwing_type \<and>
   (\<exists>w'. EmplaceBack copy_throwing_type (copy_of copy_throwing_type 3) (vec_of [1, 2] 2)
            (world_of [1, 2] 2 2) = Throws elem_exn (vec_of [1, 2] 2, w') \<and>
         heap w' = heap (world_of [1, 2] 2 2) \<and> elems (vec_of [1, 2] 2) w' = [1, 2])"
proof -
  let ?v = "vec_of [1, 2] 2" and ?w = "world_of [1, 2] 2 2"
  have h: "wf_world ?w" "wf_vec ?v ?w" "Size ?v = Capacity ?v" "\<not> uses_move copy_throwing_type"
  proof -
    show "wf_world ?w" by (rule wf_world_of) simp_all
    show "wf_vec ?v ?w" by (rule wf_vec_of) simp
    show "Size ?v = Capacity ?v"
      by (simp add: Size_def Capacity_def RawMemory_Capacity_def vec_of_def)
    show "\<not> uses_move copy_throwing_type"
      by (simp add: uses_move_def copy_throwing_type_def test_type_def)
  qed
  have e: "elems ?v ?w = [1, 2]" by (simp add: elems_of)
  note ev = world_of_def vec_of_def copy_throwing_type_def test_type_def
        counted_def copy_of_def EmplaceBack_def RawMemory_Capacity_def GetAddress_def
        on_world_def RawMemory_ctor_small construct_at_def slot_at_def put_slot_def
        ReallocateData_def deref_def copy_construct_at_def destroy_at_def RawMemory_dtor_def
        Deallocate_def operator_delete_def Let_def eval_nat_numeral
  have "\<forall>p s. EmplaceBack copy_throwing_type (copy_of copy_throwing_type 3) ?v ?w \<noteq> Returns p s"
    by (simp add: ev)
  moreover have "\<forall>e w'. EmplaceBack copy_throwing_type (copy_of copy_throwing_type 3) ?v ?w =
      Throws e (?v, w') \<longrightarrow> e = elem_exn"
    by (simp add: ev)
  ultimately show ?thesis
    using C2_full_append_strong_guarantee [OF h, of "copy_of copy_throwing_type 3"] h e
    by auto
qed

text \<open>
  C4 (amended). In a run of appends to an initially empty vector that all return, the
  size after the \<open>k\<close>-th append is \<open>k\<close> and the capacity is \<open>cap_seq k\<close>: it stays
  while there is room and becomes \<open>max 1 (2 * capacity)\<close> when there is none, which is the
  smallest power of two that is at least \<open>k\<close>. The capacities are 1, 2, 4, 4, 8, 8, 8, 8;
  the sequence 1, 2, 2, 4, 4, 4, 4, 8 of the claim is not what is observed.
\<close>

theorem C4_append_sizes_and_capacities:
  assumes "appends T mks Vector_default w = Returns obs s"
  shows "map fst obs = [1..<Suc (length mks)] \<and>
         map snd obs = map cap_seq [1..<Suc (length mks)] \<and>
         (\<forall>k. 0 < k \<longrightarrow> (\<exists>m. cap_seq k = 2 ^ m \<and> k \<le> 2 ^ m \<and> 2 ^ m < 2 * k))"
proof -
  have "rm_capacity (v_data Vector_default) = cap_seq (v_size Vector_default)"
    by (simp add: Vector_default_def RawMemory_default_def)
  from appends_observed [OF assms this]
  have "obs = map (\<lambda>k. (k, cap_seq k)) [1..<Suc (length mks)]"
    by (simp add: Vector_default_def)
  then have "map fst obs = [1..<Suc (length mks)]"
    and "map snd obs = map cap_seq [1..<Suc (length mks)]"
    by (simp_all add: comp_def)
  then show ?thesis using cap_seq_pow2 by blast
qed

theorem C4_witness:
  "\<exists>obs s. appends copy_throwing_type (map value_of [1, 2, 3, 4, 5, 6, 7, 8]) Vector_default
       (empty_world 100 100) = Returns obs s \<and>
     map fst obs = [1, 2, 3, 4, 5, 6, 7, 8] \<and> map snd obs = [1, 2, 4, 4, 8, 8, 8, 8]"
proof -
  obtain obs s where r: "appends copy_throwing_type (map value_of [1, 2, 3, 4, 5, 6, 7, 8])
      Vector_default (empty_world 100 100) = Returns obs s"
    by (cases "appends copy_throwing_type (map value_of [1, 2, 3, 4, 5, 6, 7, 8])
      Vector_default (empty_world 100 100)")
      (simp_all add: empty_world_def copy_throwing_type_def test_type_def counted_def
        value_of_def Vector_default_def RawMemory_default_def EmplaceBack_def
        RawMemory_Capacity_def GetAddress_def on_world_def RawMemory_ctor_small construct_at_def
        slot_at_def put_slot_def ReallocateData_def deref_def copy_construct_at_def
        destroy_at_def RawMemory_index_def RawMemory_Swap_eq RawMemory_dtor_def Deallocate_def
        operator_delete_def Let_def)
  from C4_append_sizes_and_capacities [OF r]
  have a: "map fst obs = [1..<Suc (length (map value_of [1, 2, 3, 4, 5, 6, 7, 8 :: nat] ::
        (nat \<Rightarrow> nat option \<times> nat) list))]"
    and b: "map snd obs = map cap_seq [1..<Suc (length (map value_of [1, 2, 3, 4, 5, 6, 7, 8 :: nat] ::
        (nat \<Rightarrow> nat option \<times> nat) list))]"
    by blast+
  have c: "[1..<Suc (length (map value_of [1, 2, 3, 4, 5, 6, 7, 8 :: nat] ::
        (nat \<Rightarrow> nat option \<times> nat) list))] = [1, 2, 3, 4, 5, 6, 7, 8]"
    by code_simp
  have d: "map cap_seq [1, 2, 3, 4, 5, 6, 7, 8] = [1, 2, 4, 4, 8, 8, 8, 8]"
    by code_simp
  from a b have "map fst obs = [1, 2, 3, 4, 5, 6, 7, 8]" and "map snd obs = [1, 2, 4, 4, 8, 8, 8, 8]"
    unfolding c d by simp_all
  with r show ?thesis
    by (intro exI [of _ obs] exI [of _ s] conjI)
qed

theorem C4_counterexample:
  "returned (appends copy_throwing_type (map value_of [1, 2, 3]) Vector_default
       (empty_world 100 100)) = Some [(1, 1), (2, 2), (3, 4)]"
  by (simp add: empty_world_def copy_throwing_type_def test_type_def counted_def
      value_of_def Vector_default_def RawMemory_default_def EmplaceBack_def
      RawMemory_Capacity_def GetAddress_def on_world_def RawMemory_ctor_small construct_at_def
      slot_at_def put_slot_def ReallocateData_def deref_def copy_construct_at_def
      destroy_at_def RawMemory_index_def RawMemory_Swap_eq RawMemory_dtor_def Deallocate_def
      operator_delete_def Size_def Capacity_def Let_def returned_def)



text \<open>
  Vectors that are not well formed hold their elements too: the one that a failed
  insertion in place leaves, with a live object behind its last element, and one that has
  been moved from.
\<close>

lemma reachable_vectors_hold_elements:
  "map_option (holds_elements_at 0)
     (run move_assign_throwing_type
        [New_default 0, Do_Reserve 0 4, Do_PushBack 0 1, Do_PushBack 0 2, Do_PushBack 0 3,
         Do_Insert 0 1 9] (start 100 0)) = Some True \<and>
   map_option (holds_elements_at 0)
     (run plain_type [New_default 0, Do_PushBack 0 1, New_move 1 0] (start 100 0)) = Some True"
  by (simp add: run_defs eval_defs holds_elements_at_def holds_elements_def)

text \<open>
  C8 (the code departs from the claim). A vector that has been moved from has no block
  and still reports the capacity it had, by the slip of
  \<^verbatim>\<open>RawMemory::operator=(RawMemory&&)\<close> shown under C1. \<^verbatim>\<open>Resize(1)\<close> on it finds that
  capacity sufficient, so \<^verbatim>\<open>Reserve\<close> returns at once, and value-initialises an object
  at the null pointer: the behaviour is undefined, where the claim has the vector hold
  one value-initialised element. On a vector that was constructed empty the same call
  acquires a block and returns.
\<close>

theorem C8_resize_of_moved_from_vector:
  "Option.bind
     (run plain_type [New_default 0, Do_PushBack 0 1, New_move 1 0] (start 100 0))
     (object_of 0) = Some \<lparr>v_data = \<lparr>rm_buffer = Null, rm_capacity = 1\<rparr>, v_size = 0\<rparr> \<and>
   map_option (call (Resize plain_type 1) 0)
     (run plain_type [New_default 0, Do_PushBack 0 1, New_move 1 0] (start 100 0)) =
     Some Undefined \<and>
   Option.bind (run plain_type [New_default 0, Do_Resize 0 1] (start 100 0)) (object_of 0) =
     Some \<lparr>v_data = \<lparr>rm_buffer = Ptr 0 0, rm_capacity = 1\<rparr>, v_size = 1\<rparr> \<and>
   Option.bind (run plain_type [New_default 0, Do_Resize 0 1] (start 100 0)) (block_at 0) =
     Some [Live 0]"
  by (simp add: run_defs eval_defs object_of_def block_at_def)

text \<open>
  \<^verbatim>\<open>Resize(n)\<close> with \<^verbatim>\<open>n * sizeof(T)\<close> beyond \<^verbatim>\<open>size_t\<close>, on a vector of one object of
  four bytes: for \<open>n = 2 ^ 62 + 1\<close> the product wraps to four, \<^verbatim>\<open>Allocate\<close> acquires a block
  of one slot, the storage records the capacity \<open>n\<close>, and the value-initialisation of
  the new elements runs past the end of that block.
\<close>

theorem Resize_beyond_size_t:
  "returned (RawMemory_ctor 4611686018427387905 (world_of [7] 1 0)) =
     Some \<lparr>rm_buffer = Ptr 1 0, rm_capacity = 4611686018427387905\<rparr> \<and>
   Option.bind (after (RawMemory_ctor 4611686018427387905 (world_of [7] 1 0))) (block_at_world 1) =
     Some [Raw] \<and>
   Resize plain_type 4611686018427387905 (vec_of [7] 1) (world_of [7] 1 0) = Undefined"
proof (intro conjI)
  show "returned (RawMemory_ctor 4611686018427387905 (world_of [7] 1 0)) =
      Some \<lparr>rm_buffer = Ptr 1 0, rm_capacity = 4611686018427387905\<rparr>"
    by (simp add: returned_def alloc_defs Let_def world_of_def)
  show "Option.bind (after (RawMemory_ctor 4611686018427387905 (world_of [7] 1 0)))
      (block_at_world 1) = Some [Raw]"
    by (simp add: after_def block_at_world_def alloc_defs Let_def world_of_def)
  show "Resize plain_type 4611686018427387905 (vec_of [7] 1) (world_of [7] 1 0) = Undefined"
    by (simp add: Resize_beyond_size_t_general)
qed

text \<open>
  C3 (amended). \<^verbatim>\<open>Emplace\<close> at a position \<open>k\<close> inside a full, well-formed vector, for an
  element type that relocates by copy or whose move constructor does not throw. The call
  either throws, with the members of the vector and every block as before the call, or
  returns, with the relocated prefix, the new element and the relocated suffix in a new
  block of the grown capacity and the old block released. When the relocation of the
  prefix throws, the state is the one at the throw with the new element destroyed; when
  the relocation of the suffix throws, it is the one at that throw with the relocated
  prefix and the new element destroyed; the new block is released in both cases.
\<close>

theorem C3_reallocating_emplace:
  assumes wfw: "wf_world w" and wfv: "wf_vec this w" and full: "Size this = Capacity this"
    and k: "k < Size this" and T: "uses_move T \<longrightarrow> \<not> throwing_move_ctor T"
  shows
    "((\<exists>e w'. Emplace T (ptr_add (Vector_begin this) k) mk this w = Throws e (this, w') \<and>
         heap w' = heap w) \<or>
      (\<exists>this' w' x ys1 ys2.
         Emplace T (ptr_add (Vector_begin this) k) mk this w =
           Returns (ptr_add (Vector_begin this') k) (this', w') \<and>
         fst (mk (env w)) = Some x \<and>
         relocated T (take k (elems this w)) ys1 \<and> relocated T (drop k (elems this w)) ys2 \<and>
         wf_vec this' w' \<and> elems this' w' = ys1 @ x # ys2 \<and>
         Capacity this' = grown (Capacity this) \<and>
         slot_at w' (Vector_begin this) = None)) \<and>
     (\<forall>x e1 e w3. mk (env w) = (Some x, e1) \<and> \<not> avail w < grown (Size this) \<and>
        ReallocatePartial T (Vector_begin this) k (Ptr (next_addr w) 0)
          (new_block_with w (grown (Size this)) k x e1) = Throws e w3 \<longrightarrow>
        Emplace T (ptr_add (Vector_begin this) k) mk this w =
          Throws e (this, w\<lparr>next_addr := Suc (next_addr w), env := dtor T x (env w3)\<rparr>)) \<and>
     (\<forall>x e1 e w3 w4. mk (env w) = (Some x, e1) \<and> \<not> avail w < grown (Size this) \<and>
        ReallocatePartial T (Vector_begin this) k (Ptr (next_addr w) 0)
          (new_block_with w (grown (Size this)) k x e1) = Returns () w3 \<and>
        ReallocatePartial T (ptr_add (Vector_begin this) k) (Size this - k)
          (Ptr (next_addr w) (Suc k)) w3 = Throws e w4 \<longrightarrow>
        (\<exists>ys1. relocated T (take k (elems this w)) ys1 \<and>
           Emplace T (ptr_add (Vector_begin this) k) mk this w =
             Throws e (this, w\<lparr>next_addr := Suc (next_addr w),
                               env := foldl (\<lambda>e y. dtor T y e) (env w4) (ys1 @ [x])\<rparr>)))"
proof (cases "rm_buffer (v_data this)")
  case Null
  then show ?thesis using wfv k by (simp add: wf_vec_def Size_def)
next
  case (Ptr a i)
  note wf = wf_vec_PtrD [OF wfv Ptr]
  let ?xs = "elems this w"
  let ?n = "length ?xs"
  let ?b = "next_addr w"
  have cap: "rm_capacity (v_data this) = ?n"
    using full wf(3) by (simp add: Size_def Capacity_def RawMemory_Capacity_def)
  have buf: "rm_buffer (v_data this) = Ptr a 0" using Ptr wf(1) by simp
  have ha: "heap w a = Some (map Live ?xs)" using wf(4) cap wf(3) by simp
  have sz: "v_size this = ?n" using wf(3) by simp
  have kn: "k < ?n" using k sz by (simp add: Size_def)
  have S: "Size this = ?n" using sz by (simp add: Size_def)
  have C: "Capacity this = ?n" using cap by (simp add: Capacity_def RawMemory_Capacity_def)
  have beg: "Vector_begin this = Ptr a 0" by (simp add: Vector_begin_def GetAddress_def buf)
  have pos: "ptr_add (Vector_begin this) k = Ptr a k" by (simp add: beg)
  have nothrow: "\<not> throwing_relocation T" if "uses_move T"
    using that T by (simp add: throwing_relocation_def)
  have idem: "w\<lparr>heap := (heap w)(a \<mapsto> map Live ?xs), next_addr := nx, env := e\<rparr> =
      w\<lparr>next_addr := nx, env := e\<rparr>" for nx e
    using ha by (simp add: heap_upd_idem)
  from Emplace_realloc [OF wfw buf ha sz cap kn, of T mk]
  show ?thesis
  proof (elim disjE exE conjE, goal_cases)
    case 1
    then show ?case unfolding pos beg S by auto
  next
    case (2 e1)
    then show ?case unfolding pos beg S by auto
  next
    case (3 x e1 rs w3)
    have um: "\<not> uses_move T" using 3(7) nothrow by blast
    then have "rs @ drop k ?xs = ?xs" using 3(6) by simp
    then have e: "Emplace T (Ptr a k) mk this w =
        Throws elem_exn (this, w\<lparr>next_addr := Suc ?b, env := dtor T x (env w3)\<rparr>)"
      using 3(4) idem by simp
    show ?case unfolding pos beg S using 3(1-3) e by auto
  next
    case (4 x e1 rs1 rs2 ys1 w3 w4)
    have um: "\<not> uses_move T" using 4(10) nothrow by blast
    then have "rs1 @ rs2 = ?xs" using 4(9) by simp
    then have e: "Emplace T (Ptr a k) mk this w =
        Throws elem_exn
          (this, w\<lparr>next_addr := Suc ?b, env := foldl (\<lambda>e y. dtor T y e) (env w4) (ys1 @ [x])\<rparr>)"
      using 4(6) idem by simp
    show ?case unfolding pos beg S using 4(1-5) e by auto
  next
    case (5 x e1 ys1 ys2 w3 w4 e')
    let ?this' = "this\<lparr>v_data := \<lparr>rm_buffer = Ptr ?b 0, rm_capacity = grown ?n\<rparr>,
                  v_size := Suc ?n\<rparr>"
    let ?w' = "w\<lparr>heap := (heap w)(a := None,
                    ?b \<mapsto> map Live (ys1 @ x # ys2) @ replicate (grown ?n - Suc ?n) Raw),
                next_addr := Suc ?b, avail := avail w - grown ?n + ?n, env := e'\<rparr>"
    have fresh: "heap w ?b = None" using wfw by (simp add: wf_world_def)
    have ab: "a \<noteq> ?b" using ha fresh by auto
    have l1: "length ys1 = k" and l2: "length ys2 = ?n - k"
      using 5(6,7) kn
      by (auto simp add: relocated_def dest!: list_all2_lengthD split: if_splits)
    have len: "length (ys1 @ x # ys2) = Suc ?n" using l1 l2 kn by simp
    have hw: "heap ?w' ?b = Some (map Live (ys1 @ x # ys2) @ replicate (grown ?n - Suc ?n) Raw)"
      by simp
    have lt: "?n < grown ?n" using kn by (simp add: grown_def)
    have "wf_vec ?this' ?w'"
      using len lt by (intro wf_vecI [OF _ hw]) simp_all
    moreover have "elems ?this' ?w' = ys1 @ x # ys2"
      using len by (intro elems_shape [OF _ hw]) simp_all
    moreover have "ptr_add (Vector_begin ?this') k = Ptr ?b k"
      by (simp add: Vector_begin_def GetAddress_def)
    moreover have "Capacity ?this' = grown (Capacity this)"
      using C by (simp add: Capacity_def RawMemory_Capacity_def)
    moreover have "slot_at ?w' (Vector_begin this) = None"
      using ab by (simp add: beg slot_at_def)
    moreover have "fst (mk (env w)) = Some x" using 5(1) by simp
    ultimately show ?case unfolding pos S using 5(1-7) unfolding beg by auto
  qed
qed

theorem C3_counterexample:
  "elems (vec_of [1, 2, 3] 3) (world_of [1, 2, 3] 3 1) = [1, 2, 3] \<and>
   thrown (Emplace move_only_type (ptr_add (Vector_begin (vec_of [1, 2, 3] 3)) 2) (value_of 9)
       (vec_of [1, 2, 3] 3) (world_of [1, 2, 3] 3 1)) = Some elem_exn \<and>
   map_option fst
     (after (Emplace move_only_type (ptr_add (Vector_begin (vec_of [1, 2, 3] 3)) 2) (value_of 9)
        (vec_of [1, 2, 3] 3) (world_of [1, 2, 3] 3 1))) = Some (vec_of [1, 2, 3] 3) \<and>
   map_option elems_in
     (after (Emplace move_only_type (ptr_add (Vector_begin (vec_of [1, 2, 3] 3)) 2) (value_of 9)
        (vec_of [1, 2, 3] 3) (world_of [1, 2, 3] 3 1))) = Some [0, 2, 3]"
  by (simp add: eval_defs elems_def thrown_def after_def elems_in_def)

theorem C3_witness:
  "wf_world (world_of [1, 2, 3] 3 1) \<and> wf_vec (vec_of [1, 2, 3] 3) (world_of [1, 2, 3] 3 1) \<and>
   wf_world (world_of [1, 2, 3] 3 0) \<and> wf_vec (vec_of [1, 2, 3] 3) (world_of [1, 2, 3] 3 0) \<and>
   Size (vec_of [1, 2, 3] 3) = Capacity (vec_of [1, 2, 3] 3) \<and> 1 < Size (vec_of [1, 2, 3] 3) \<and>
   \<not> uses_move copy_throwing_type \<and>
   (\<exists>w'. Emplace copy_throwing_type (ptr_add (Vector_begin (vec_of [1, 2, 3] 3)) 1) (value_of 9)
        (vec_of [1, 2, 3] 3) (world_of [1, 2, 3] 3 1) = Throws elem_exn (vec_of [1, 2, 3] 3, w') \<and>
      heap w' = heap (world_of [1, 2, 3] 3 1)) \<and>
   (\<exists>w3. ReallocatePartial copy_throwing_type (Vector_begin (vec_of [1, 2, 3] 3)) 1 (Ptr 1 0)
        (new_block_with (world_of [1, 2, 3] 3 0) 6 1 9 0) = Throws elem_exn w3 \<and>
      Emplace copy_throwing_type (ptr_add (Vector_begin (vec_of [1, 2, 3] 3)) 1) (value_of 9)
        (vec_of [1, 2, 3] 3) (world_of [1, 2, 3] 3 0) =
        Throws elem_exn
          (vec_of [1, 2, 3] 3,
           (world_of [1, 2, 3] 3 0)\<lparr>next_addr := 2, env := dtor copy_throwing_type 9 (env w3)\<rparr>)) \<and>
   (\<exists>w3 w4 ys1. ReallocatePartial copy_throwing_type (Vector_begin (vec_of [1, 2, 3] 3)) 1 (Ptr 1 0)
        (new_block_with (world_of [1, 2, 3] 3 1) 6 1 9 1) = Returns () w3 \<and>
      ReallocatePartial copy_throwing_type (ptr_add (Vector_begin (vec_of [1, 2, 3] 3)) 1) 2
        (Ptr 1 2) w3 = Throws elem_exn w4 \<and>
      Emplace copy_throwing_type (ptr_add (Vector_begin (vec_of [1, 2, 3] 3)) 1) (value_of 9)
        (vec_of [1, 2, 3] 3) (world_of [1, 2, 3] 3 1) =
        Throws elem_exn
          (vec_of [1, 2, 3] 3,
           (world_of [1, 2, 3] 3 1)\<lparr>next_addr := 2,
              env := foldl (\<lambda>e y. dtor copy_throwing_type y e) (env w4) (ys1 @ [9])\<rparr>))"
proof -
  let ?v = "vec_of [1, 2, 3] 3" and ?T = copy_throwing_type
  let ?w0 = "world_of [1, 2, 3] 3 0" and ?w1 = "world_of [1, 2, 3] 3 1"
  have v: "Size ?v = Capacity ?v" "1 < Size ?v" "Size ?v = 3"
    by (simp_all add: Size_def Capacity_def RawMemory_Capacity_def vec_of_def)
  have um: "\<not> uses_move ?T" by (simp add: uses_move_def copy_throwing_type_def test_type_def)
  have wf0: "wf_world ?w0" "wf_vec ?v ?w0" and wf1: "wf_world ?w1" "wf_vec ?v ?w1"
    by (simp_all add: wf_world_of wf_vec_of)
  have T: "uses_move ?T \<longrightarrow> \<not> throwing_move_ctor ?T" using um by simp
  note c0 = C3_reallocating_emplace [OF wf0 v(1,2) T, of "value_of 9"]
  note c1 = C3_reallocating_emplace [OF wf1 v(1,2) T, of "value_of 9"]
  have m0: "value_of 9 (env ?w0) = (Some (9::nat), 0)"
    and m1: "value_of 9 (env ?w1) = (Some (9::nat), 1)"
    by (simp_all add: value_of_def world_of_def)
  have av: "\<not> avail ?w0 < grown (Size ?v)" "\<not> avail ?w1 < grown (Size ?v)"
    unfolding v(3) by (simp_all add: world_of_def grown_def)
  have g: "grown (Size ?v) = 6" unfolding v(3) by (simp add: grown_def)
  have nx: "next_addr ?w0 = 1" "next_addr ?w1 = 1" by (simp_all add: world_of_def)
  have "\<exists>w3. ReallocatePartial ?T (Vector_begin ?v) 1 (Ptr 1 0) (new_block_with ?w0 6 1 9 0) =
      Throws elem_exn w3"
    by (simp add: eval_defs)
  then obtain w3 where a: "ReallocatePartial ?T (Vector_begin ?v) 1 (Ptr 1 0)
      (new_block_with ?w0 6 1 9 0) = Throws elem_exn w3" ..
  then have a': "ReallocatePartial ?T (Vector_begin ?v) 1 (Ptr (next_addr ?w0) 0)
      (new_block_with ?w0 (grown (Size ?v)) 1 9 0) = Throws elem_exn w3"
    unfolding g nx .
  from c0 have "\<forall>x e1 e w3. value_of 9 (env ?w0) = (Some x, e1) \<and> \<not> avail ?w0 < grown (Size ?v) \<and>
        ReallocatePartial ?T (Vector_begin ?v) 1 (Ptr (next_addr ?w0) 0)
          (new_block_with ?w0 (grown (Size ?v)) 1 x e1) = Throws e w3 \<longrightarrow>
        Emplace ?T (ptr_add (Vector_begin ?v) 1) (value_of 9) ?v ?w0 =
          Throws e (?v, ?w0\<lparr>next_addr := Suc (next_addr ?w0), env := dtor ?T x (env w3)\<rparr>)"
    by blast
  from this [rule_format, OF conjI [OF m0 conjI [OF av(1) a']]]
  have ea: "Emplace ?T (ptr_add (Vector_begin ?v) 1) (value_of 9) ?v ?w0 =
      Throws elem_exn (?v, ?w0\<lparr>next_addr := 2, env := dtor ?T 9 (env w3)\<rparr>)"
    unfolding nx Suc_1 .
  have "\<exists>w3. ReallocatePartial ?T (Vector_begin ?v) 1 (Ptr 1 0) (new_block_with ?w1 6 1 9 1) =
      Returns () w3 \<and>
      (\<exists>w4. ReallocatePartial ?T (ptr_add (Vector_begin ?v) 1) 2 (Ptr 1 2) w3 = Throws elem_exn w4)"
    by (simp add: eval_defs)
  then obtain w3' w4 where b: "ReallocatePartial ?T (Vector_begin ?v) 1 (Ptr 1 0)
      (new_block_with ?w1 6 1 9 1) = Returns () w3'"
    "ReallocatePartial ?T (ptr_add (Vector_begin ?v) 1) 2 (Ptr 1 2) w3' = Throws elem_exn w4"
    by blast
  have b': "ReallocatePartial ?T (Vector_begin ?v) 1 (Ptr (next_addr ?w1) 0)
      (new_block_with ?w1 (grown (Size ?v)) 1 9 1) = Returns () w3'"
    "ReallocatePartial ?T (ptr_add (Vector_begin ?v) 1) (Size ?v - 1) (Ptr (next_addr ?w1) (Suc 1)) w3' =
       Throws elem_exn w4"
    using b unfolding nx v(3) by (simp_all add: grown_def eval_nat_numeral)
  from c1 have "\<forall>x e1 e w3 w4. value_of 9 (env ?w1) = (Some x, e1) \<and>
        \<not> avail ?w1 < grown (Size ?v) \<and>
        ReallocatePartial ?T (Vector_begin ?v) 1 (Ptr (next_addr ?w1) 0)
          (new_block_with ?w1 (grown (Size ?v)) 1 x e1) = Returns () w3 \<and>
        ReallocatePartial ?T (ptr_add (Vector_begin ?v) 1) (Size ?v - 1)
          (Ptr (next_addr ?w1) (Suc 1)) w3 = Throws e w4 \<longrightarrow>
        (\<exists>ys1. relocated ?T (take 1 (elems ?v ?w1)) ys1 \<and>
           Emplace ?T (ptr_add (Vector_begin ?v) 1) (value_of 9) ?v ?w1 =
             Throws e (?v, ?w1\<lparr>next_addr := Suc (next_addr ?w1),
                               env := foldl (\<lambda>e y. dtor ?T y e) (env w4) (ys1 @ [x])\<rparr>))"
    by blast
  from this [rule_format, OF conjI [OF m1 conjI [OF av(2) conjI [OF b']]]]
  obtain ys1 where eb0:
    "Emplace ?T (ptr_add (Vector_begin ?v) 1) (value_of 9) ?v ?w1 =
      Throws elem_exn
        (?v, ?w1\<lparr>next_addr := Suc (next_addr ?w1),
                   env := foldl (\<lambda>e y. dtor ?T y e) (env w4) (ys1 @ [9])\<rparr>)"
    by blast
  note eb = eb0 [unfolded nx Suc_1]
  from c1 eb have "\<exists>w'. Emplace ?T (ptr_add (Vector_begin ?v) 1) (value_of 9) ?v ?w1 =
      Throws elem_exn (?v, w') \<and> heap w' = heap ?w1"
    by auto
  with wf0 wf1 v um a ea b eb show ?thesis by blast
qed

text \<open>
  C6 (the code departs from the claim). \<^verbatim>\<open>Insert(begin(), 9)\<close> on a vector that has been
  moved from, which has no block and still reports the capacity it had (the slip shown
  under C1). The position is \<^verbatim>\<open>end()\<close>, so \<^verbatim>\<open>Emplace\<close> calls \<^verbatim>\<open>EmplaceBack\<close>, which
  finds the size below that capacity and constructs the element at the null pointer: the
  behaviour is undefined, where the claim has the vector hold the element. On a vector
  that was constructed empty the same call acquires a block and returns.
\<close>

theorem C6_insert_into_moved_from_vector:
  "Option.bind
     (run plain_type [New_default 0, Do_PushBack 0 1, New_move 1 0] (start 100 0))
     (object_of 0) = Some \<lparr>v_data = \<lparr>rm_buffer = Null, rm_capacity = 1\<rparr>, v_size = 0\<rparr> \<and>
   map_option
     (call (Insert plain_type
        (Vector_begin \<lparr>v_data = \<lparr>rm_buffer = Null, rm_capacity = 1\<rparr>, v_size = 0\<rparr>) 9) 0)
     (run plain_type [New_default 0, Do_PushBack 0 1, New_move 1 0] (start 100 0)) =
     Some Undefined \<and>
   run plain_type [New_default 0, Do_PushBack 0 1, New_move 1 0, Do_Insert 0 0 9] (start 100 0) =
     None \<and>
   Option.bind (run plain_type [New_default 0, Do_Insert 0 0 9] (start 100 0)) (object_of 0) =
     Some \<lparr>v_data = \<lparr>rm_buffer = Ptr 0 0, rm_capacity = 1\<rparr>, v_size = 1\<rparr> \<and>
   Option.bind (run plain_type [New_default 0, Do_Insert 0 0 9] (start 100 0)) (block_at 0) =
     Some [Live 9]"
  by (simp add: run_defs eval_defs object_of_def block_at_def)

text \<open>
  C5 (the code departs from the claim). \<^verbatim>\<open>a = b\<close> where \<^verbatim>\<open>a\<close> has been moved from, so it
  has no block and still reports the capacity it had (the slip shown under C1), and \<^verbatim>\<open>b\<close>
  holds one element. The size of \<^verbatim>\<open>b\<close> does not exceed that capacity, so the branch
  that assigns in place runs and copy-constructs the element at the null pointer: the
  behaviour is undefined, where the claim has \<^verbatim>\<open>a\<close> equal to \<^verbatim>\<open>b\<close>. When \<^verbatim>\<open>a\<close> was
  constructed empty the same assignment copies \<^verbatim>\<open>b\<close> into a new block.
\<close>

theorem C5_copy_assignment_to_moved_from_vector:
  "Option.bind
     (run plain_type [New_default 0, Do_PushBack 0 1, New_move 1 0] (start 100 0))
     (object_of 0) = Some \<lparr>v_data = \<lparr>rm_buffer = Null, rm_capacity = 1\<rparr>, v_size = 0\<rparr> \<and>
   Option.bind
     (run plain_type [New_default 0, Do_PushBack 0 1, New_move 1 0] (start 100 0))
     (object_of 1) = Some \<lparr>v_data = \<lparr>rm_buffer = Ptr 0 0, rm_capacity = 1\<rparr>, v_size = 1\<rparr> \<and>
   Option.bind
     (run plain_type [New_default 0, Do_PushBack 0 1, New_move 1 0] (start 100 0))
     (block_at 0) = Some [Live 1] \<and>
   map_option (copy_assignment plain_type 0 1)
     (run plain_type [New_default 0, Do_PushBack 0 1, New_move 1 0] (start 100 0)) =
     Some Undefined \<and>
   Option.bind
     (run plain_type [New_default 0, New_default 1, Do_PushBack 1 1, Assign_copy 0 1] (start 100 0))
     (object_of 0) = Some \<lparr>v_data = \<lparr>rm_buffer = Ptr 1 0, rm_capacity = 1\<rparr>, v_size = 1\<rparr> \<and>
   Option.bind
     (run plain_type [New_default 0, New_default 1, Do_PushBack 1 1, Assign_copy 0 1] (start 100 0))
     (block_at 1) = Some [Live 1]"
  by (simp add: run_defs eval_defs object_of_def block_at_def copy_assignment_def
      copy_assign_distinct_def Vector_copy_ctor_def Vector_Swap_eq Vector_dtor_def)

text \<open>
  C9 (the code departs from the claim). A vector is given room for four elements and
  three are appended; then \<^verbatim>\<open>Insert\<close> at index 1 runs, for an element type whose move
  assignment throws. The branch of \<^verbatim>\<open>Emplace\<close> that inserts in place has by then
  constructed an object one past the end, from the last element, and it neither destroys
  that object nor counts it: the exception leaves the size at 3 and four live objects in
  the block, so the invariant of the vector does not hold. The reallocating branch of the
  same function destroys what it has constructed when a later step throws.
\<close>

theorem C9_failed_insert_leaves_live_object:
  "Option.bind
     (run move_assign_throwing_type
        [New_default 0, Do_Reserve 0 4, Do_PushBack 0 1, Do_PushBack 0 2, Do_PushBack 0 3,
         Do_Insert 0 1 9] (start 100 0))
     (object_of 0) = Some \<lparr>v_data = \<lparr>rm_buffer = Ptr 0 0, rm_capacity = 4\<rparr>, v_size = 3\<rparr> \<and>
   Option.bind
     (run move_assign_throwing_type
        [New_default 0, Do_Reserve 0 4, Do_PushBack 0 1, Do_PushBack 0 2, Do_PushBack 0 3,
         Do_Insert 0 1 9] (start 100 0))
     (block_at 0) = Some [Live 1, Live 2, Live 0, Live 3] \<and>
   map_option (invariant_at 0)
     (run move_assign_throwing_type
        [New_default 0, Do_Reserve 0 4, Do_PushBack 0 1, Do_PushBack 0 2, Do_PushBack 0 3,
         Do_Insert 0 1 9] (start 100 0)) = Some False"
  by (simp add: run_defs eval_defs object_of_def block_at_def invariant_at_def)

text \<open>
  C10. Copy-assigning a vector to itself returns at once: the program state, with every
  vector, every block and the environment of the element type, is as before, so nothing
  was copied and nothing destroyed.
\<close>

theorem C10_self_assignment_changes_nothing:
  assumes "objects P v = Some x"
  shows "copy_assignment T v v P = Returns v P"
  using assms by (simp add: copy_assignment_def)

theorem C10_witness:
  "objects (program_of [1, 2] 2 0) 0 = Some (vec_of [1, 2] 2) \<and>
   copy_assignment plain_type 0 0 (program_of [1, 2] 2 0) = Returns 0 (program_of [1, 2] 2 0)"
  using C10_self_assignment_changes_nothing
    [of "program_of [1, 2] 2 0" 0 "vec_of [1, 2] 2" plain_type]
  by (simp add: program_of_def)

end
